theory Spec2Isabelle
  imports Complex_Main
begin

section \<open>The pressure-field module of solesense\<close>

text \<open>
  This theory embeds \<^verbatim>\<open>backend/core/pressure_field.py\<close>. The module builds a
  heel-to-toe profile, shifts its midfoot window, tiles it across the width of the
  sole, raises every cell to a power and averages neighbouring cells.

  Conventions of the embedding:
  \<^item> the value of a cell is a \<open>real\<close>: sums, differences, quotients and powers of
    cell values are exact, so a cell of the model and the float64 cell of the code
    differ by rounding only;
  \<^item> where a float decides what the code does next, it is computed as float64
    does, with every operation rounded to the nearest double, ties to even: the
    arguments of \<^verbatim>\<open>int()\<close> (the bounds of the midfoot window, the number of
    smoothing passes) and the overflow of a result to infinity;
  \<^item> \<^verbatim>\<open>np.power\<close> returns an \<open>option\<close>, \<open>None\<close> where numpy yields nan or inf;
  \<^item> the constants \<^verbatim>\<open>GRID_ROWS\<close> and \<^verbatim>\<open>GRID_COLS\<close> are imported from
    \<^verbatim>\<open>core.constants\<close>; every function that reads one takes it as an argument
    (\<open>rows\<close>, \<open>cols\<close>), a Python \<open>int\<close>;
  \<^item> the parameter dict is a map from field names to reals (finite floats);
  \<^item> an exception is a value \<open>Inl e\<close> of a sum type; running out of memory is not
    modelled;
  \<^item> a leading underscore of a Python name is dropped;
  \<^item> the stages are first given as functions on values; they are given a second
    time on a store of arrays (prefix \<open>st_\<close>), with allocation, the update of the
    profile in place and the item assignments of the smoother, and the two are
    proved to agree.
\<close>

subsection \<open>Exceptions and the parameter dict\<close>

text \<open>
  The string of \<open>KeyError\<close> is the missing key; the string of the other two names
  the operation that raised.
\<close>

datatype error = KeyError string | ValueError string | OverflowError string

type_synonym params = "string \<rightharpoonup> real"

text \<open>\<^verbatim>\<open>params[k]\<close>: a missing key raises \<^verbatim>\<open>KeyError(k)\<close>.\<close>

definition getitem :: "params \<Rightarrow> string \<Rightarrow> error + real" where
  "getitem params k = (case params k of None \<Rightarrow> Inl (KeyError k) | Some v \<Rightarrow> Inr v)"

subsection \<open>float64\<close>

text \<open>
  A float64 is a finite real with 53 significant bits, an infinity (\<open>True\<close> for the
  negative one) or nan.
\<close>

datatype float64 = Finite real | Infinity bool | NaN

text \<open>Rounding to the nearest integer, ties to even.\<close>

definition round_half_even :: "real \<Rightarrow> int" where
  "round_half_even x =
     (let f = \<lfloor>x\<rfloor>; d = x - real_of_int f
      in if d < 1 / 2 then f else if 1 / 2 < d then f + 1 else if even f then f else f + 1)"

text \<open>
  The exponent of the last bit of the double nearest to \<open>x\<close>: 52 below the binary
  exponent of \<open>x\<close>, and \<open>-1074\<close> for the subnormal numbers.
\<close>

definition quantum_exponent :: "real \<Rightarrow> int" where
  "quantum_exponent x = max \<lfloor>log 2 \<bar>x\<bar>\<rfloor> (- 1022) - 52"

text \<open>Rounding to the nearest double, with no bound on the exponent.\<close>

definition float64_round :: "real \<Rightarrow> real" where
  "float64_round x =
     (if x = 0 then 0
      else real_of_int (round_half_even (x / 2 powi quantum_exponent x))
             * 2 powi quantum_exponent x)"

text \<open>
  The largest double is \<open>2 ^ 1024 - 2 ^ 971\<close>. A result of magnitude
  \<open>2 ^ 1024 - 2 ^ 970\<close> or more, halfway to \<open>2 ^ 1024\<close>, rounds to infinity.
\<close>

definition float64_overflow :: real where
  "float64_overflow = 2 ^ 1024 - 2 ^ 970"

definition to_float64 :: "real \<Rightarrow> float64" where
  "to_float64 x =
     (if \<bar>x\<bar> < float64_overflow then Finite (float64_round x) else Infinity (x < 0))"

text \<open>Subtraction and multiplication of floats.\<close>

fun fsub :: "float64 \<Rightarrow> float64 \<Rightarrow> float64" where
  "fsub (Finite a) (Finite b) = to_float64 (a - b)"
| "fsub (Finite a) (Infinity n) = Infinity (\<not> n)"
| "fsub (Infinity m) (Finite b) = Infinity m"
| "fsub (Infinity m) (Infinity n) = (if m = n then NaN else Infinity m)"
| "fsub NaN y = NaN"
| "fsub x NaN = NaN"

fun fmul :: "float64 \<Rightarrow> float64 \<Rightarrow> float64" where
  "fmul (Finite a) (Finite b) = to_float64 (a * b)"
| "fmul (Finite a) (Infinity n) = (if a = 0 then NaN else Infinity (n \<noteq> (a < 0)))"
| "fmul (Infinity m) (Finite b) = (if b = 0 then NaN else Infinity (m \<noteq> (b < 0)))"
| "fmul (Infinity m) (Infinity n) = Infinity (m \<noteq> n)"
| "fmul NaN y = NaN"
| "fmul x NaN = NaN"

text \<open>
  The conversion of a Python \<open>int\<close> to a float, as an operation between a float and
  an \<open>int\<close> performs it: the nearest double, and \<^verbatim>\<open>OverflowError\<close> when that is
  infinite.
\<close>

definition py_float :: "int \<Rightarrow> error + float64" where
  "py_float n =
     (case to_float64 (real_of_int n) of
        Finite r \<Rightarrow> Inr (Finite r)
      | Infinity _ \<Rightarrow> Inl (OverflowError ''float'')
      | NaN \<Rightarrow> Inl (OverflowError ''float''))"

text \<open>
  \<^verbatim>\<open>int(x)\<close> on a float truncates towards zero; it raises \<^verbatim>\<open>OverflowError\<close> on an
  infinity and \<^verbatim>\<open>ValueError\<close> on nan.
\<close>

definition truncate_real :: "real \<Rightarrow> int" where
  "truncate_real r = (if 0 \<le> r then \<lfloor>r\<rfloor> else \<lceil>r\<rceil>)"

definition py_int :: "float64 \<Rightarrow> error + int" where
  "py_int x =
     (case x of
        Finite r \<Rightarrow> Inr (truncate_real r)
      | Infinity _ \<Rightarrow> Inl (OverflowError ''int'')
      | NaN \<Rightarrow> Inl (ValueError ''int''))"

text \<open>\<^verbatim>\<open>int(c * n)\<close> for a float \<open>c\<close> and an \<open>int\<close> \<open>n\<close>.\<close>

definition int_of_product :: "float64 \<Rightarrow> int \<Rightarrow> error + int" where
  "int_of_product c n =
     (case py_float n of
        Inl e \<Rightarrow> Inl e
      | Inr f \<Rightarrow> py_int (fmul c f))"

subsection \<open>Python and numpy primitives\<close>

text \<open>\<^verbatim>\<open>range(n)\<close>: empty for \<open>n \<le> 0\<close>.\<close>

definition py_range :: "int \<Rightarrow> int list" where
  "py_range n = map int [0..<nat n]"

text \<open>
  \<^verbatim>\<open>np.linspace(start, stop, num)\<close> with the default \<^verbatim>\<open>endpoint=True\<close>: a negative
  \<open>num\<close> raises \<^verbatim>\<open>ValueError\<close>, \<open>num = 0\<close> gives the empty array, \<open>num = 1\<close> gives
  \<open>[start]\<close> (numpy multiplies the index by \<open>stop - start\<close> when \<open>num - 1\<close> is not
  positive, so nothing is divided by zero), and otherwise the step is
  \<open>(stop - start) / (num - 1)\<close>.
\<close>

definition np_linspace :: "real \<Rightarrow> real \<Rightarrow> int \<Rightarrow> error + real list" where
  "np_linspace start stop num =
     (if num < 0 then Inl (ValueError ''linspace'')
      else let divisor = num - 1;
               delta = stop - start;
               step = (if 0 < divisor then delta / real_of_int divisor else delta)
           in Inr (map (\<lambda>i. real i * step + start) [0..<nat num]))"

text \<open>
  The bounds of a slice \<^verbatim>\<open>a[lo:hi]\<close> on an array of length \<open>n\<close>: a negative bound
  counts from the end, and both are clipped to \<open>[0, n]\<close>.
\<close>

definition slice_bound :: "nat \<Rightarrow> int \<Rightarrow> nat" where
  "slice_bound n k = (if k < 0 then nat (max 0 (k + int n)) else min (nat k) n)"

text \<open>\<^verbatim>\<open>a[lo:hi] += v\<close> on a one-dimensional array.\<close>

definition slice_iadd :: "real list \<Rightarrow> int \<Rightarrow> int \<Rightarrow> real \<Rightarrow> real list" where
  "slice_iadd a lo hi v =
     (let l = slice_bound (length a) lo; h = slice_bound (length a) hi
      in map (\<lambda>i. if l \<le> i \<and> i < h then a ! i + v else a ! i) [0..<length a])"

text \<open>A two-dimensional array: its \<^verbatim>\<open>shape\<close> and its rows.\<close>

record grid =
  nrows :: nat
  ncols :: nat
  cells :: "real list list"

text \<open>The invariant of every numpy array: the rows agree with the shape.\<close>

definition rectangular :: "grid \<Rightarrow> bool" where
  "rectangular g \<longleftrightarrow>
     length (cells g) = nrows g \<and> list_all (\<lambda>r. length r = ncols g) (cells g)"

text \<open>
  \<^verbatim>\<open>np.tile(a.reshape(-1, 1), (1, reps))\<close> for a one-dimensional \<open>a\<close>: every entry
  becomes a row of \<open>reps\<close> copies. A negative repetition count raises
  \<^verbatim>\<open>ValueError\<close>; zero gives an array of shape \<open>(length a, 0)\<close>.
\<close>

definition np_tile_column :: "real list \<Rightarrow> int \<Rightarrow> error + grid" where
  "np_tile_column a reps =
     (if reps < 0 then Inl (ValueError ''tile'')
      else Inr \<lparr>nrows = length a, ncols = nat reps,
                cells = map (\<lambda>v. replicate (nat reps) v) a\<rparr>)"

text \<open>
  \<^verbatim>\<open>np.power(x, y)\<close> on floats. For a positive base it is the real power. Zero to a
  positive power is zero, to the power zero it is one, and to a negative power numpy
  gives inf. A negative base has a real power only for an integral exponent; for any
  other exponent numpy gives nan. A power that overflows is inf.
\<close>

definition np_power :: "real \<Rightarrow> real \<Rightarrow> real option" where
  "np_power x y =
     (if 0 < x then (if x powr y < float64_overflow then Some (x powr y) else None)
      else if x = 0 then (if 0 < y then Some 0 else if y = 0 then Some 1 else None)
      else if real_of_int \<lfloor>y\<rfloor> = y
        then (if \<bar>x powi \<lfloor>y\<rfloor>\<bar> < float64_overflow then Some (x powi \<lfloor>y\<rfloor>) else None)
      else None)"

subsection \<open>Stage 1: the base profile\<close>

definition base_longitudinal_profile :: "int \<Rightarrow> error + real list" where
  "base_longitudinal_profile rows =
     (case np_linspace 0 1 rows of
        Inl e \<Rightarrow> Inl e
      | Inr x \<Rightarrow> Inr (map (\<lambda>v. 1.2 - v) x))"

subsection \<open>Stage 2: the arch bias\<close>

text \<open>
  The literals \<^verbatim>\<open>0.35\<close> and \<^verbatim>\<open>0.65\<close> are the doubles nearest to them; each is
  multiplied by \<^verbatim>\<open>GRID_ROWS\<close> as a float and the product is truncated.
\<close>

definition apply_arch_bias :: "int \<Rightarrow> real list \<Rightarrow> real \<Rightarrow> error + real list" where
  "apply_arch_bias rows profile arch_bias =
     (case int_of_product (to_float64 0.35) rows of
        Inl e \<Rightarrow> Inl e
      | Inr mid_start \<Rightarrow>
     (case int_of_product (to_float64 0.65) rows of
        Inl e \<Rightarrow> Inl e
      | Inr mid_end \<Rightarrow>
          Inr (slice_iadd profile mid_start mid_end arch_bias)))"

subsection \<open>Stage 3: expansion to the grid\<close>

definition expand_to_grid :: "int \<Rightarrow> real list \<Rightarrow> error + grid" where
  "expand_to_grid cols longitudinal_profile = np_tile_column longitudinal_profile cols"

subsection \<open>Stage 4: contact capacity\<close>

definition contact_exponent :: "real \<Rightarrow> real" where
  "contact_exponent capacity = max 0.5 (1.5 - capacity)"

text \<open>
  The result is \<open>None\<close> when some cell of the shaped array is not a real number; the
  Python function returns the array with nan in those cells.
\<close>

definition apply_contact_capacity :: "grid \<Rightarrow> real \<Rightarrow> grid option" where
  "apply_contact_capacity g capacity =
     (let exponent = contact_exponent capacity
      in map_option (\<lambda>cs. g\<lparr>cells := cs\<rparr>)
           (those (map (\<lambda>row. those (map (\<lambda>c. np_power c exponent) row)) (cells g))))"

subsection \<open>Stage 5: bounded smoothing\<close>

text \<open>
  The list \<^verbatim>\<open>neighbors\<close> built for cell \<open>(i, j)\<close>, in the order of the source. It is
  read from \<open>g\<close>, the array the pass started from. Inside the loops \<open>rows\<close> and
  \<open>cols\<close> are at least 1, so \<open>rows - 1\<close> and \<open>cols - 1\<close> are not truncated, and every
  index below is within the array.
\<close>

definition neighbors :: "grid \<Rightarrow> nat \<Rightarrow> nat \<Rightarrow> nat \<Rightarrow> nat \<Rightarrow> real list" where
  "neighbors g rows cols i j =
     [cells g ! i ! j]
     @ (if i > 0 then [cells g ! (i - 1) ! j] else [])
     @ (if i < rows - 1 then [cells g ! (i + 1) ! j] else [])
     @ (if j > 0 then [cells g ! i ! (j - 1)] else [])
     @ (if j < cols - 1 then [cells g ! i ! (j + 1)] else [])"

text \<open>\<^verbatim>\<open>new_grid[i, j] = v\<close>.\<close>

definition setitem :: "grid \<Rightarrow> nat \<Rightarrow> nat \<Rightarrow> real \<Rightarrow> grid" where
  "setitem g i j v = g\<lparr>cells := (cells g)[i := (cells g ! i)[j := v]]\<rparr>"

text \<open>
  One run of the body of the outer loop: \<open>new_grid\<close> starts as a copy of \<open>g\<close>, the two
  inner loops write it cell by cell, and it is the next \<open>grid\<close>.
\<close>

definition smooth_pass :: "nat \<Rightarrow> nat \<Rightarrow> grid \<Rightarrow> grid" where
  "smooth_pass rows cols g =
     fold (\<lambda>i new_grid.
             fold (\<lambda>j new_grid.
                     setitem new_grid i j
                       (sum_list (neighbors g rows cols i j)
                          / real (length (neighbors g rows cols i j))))
                  [0..<cols] new_grid)
          [0..<rows] g"

text \<open>
  The local \<^verbatim>\<open>steps\<close> of the smoother, \<^verbatim>\<open>int((1.0 - stiffness_factor) * iterations)\<close>:
  a float subtraction, the conversion of \<open>iterations\<close>, a float multiplication and
  the truncation.
\<close>

definition smooth_steps :: "real \<Rightarrow> int \<Rightarrow> error + int" where
  "smooth_steps stiffness_factor iterations =
     int_of_product (fsub (Finite 1.0) (Finite stiffness_factor)) iterations"

text \<open>
  The outer loop runs once for every element of \<^verbatim>\<open>range(steps)\<close>; the shape is
  read once, before the loop.
\<close>

definition smooth_grid_bounded :: "grid \<Rightarrow> real \<Rightarrow> int \<Rightarrow> error + grid" where
  "smooth_grid_bounded g stiffness_factor iterations =
     (case smooth_steps stiffness_factor iterations of
        Inl e \<Rightarrow> Inl e
      | Inr steps \<Rightarrow>
          (let rows = nrows g;
               cols = ncols g
           in Inr (fold (\<lambda>_ grid. smooth_pass rows cols grid) (py_range steps) g)))"

subsection \<open>The pipeline\<close>

text \<open>
  The result is \<open>Inl e\<close> when the call raises \<open>e\<close>, \<open>Inr (Some g)\<close> when it returns
  the array \<open>g\<close> of reals, and \<open>Inr None\<close> when it returns an array holding nan or
  inf. Each field of \<open>params\<close> is read where the source reads it, after the stages
  before it have run. The smoother is called with its default \<^verbatim>\<open>iterations=3\<close>; on
  an array holding nan or inf it raises when \<^verbatim>\<open>steps\<close> does, and otherwise returns
  an array that still holds one.
\<close>

definition generate_pressure_field :: "int \<Rightarrow> int \<Rightarrow> params \<Rightarrow> error + grid option" where
  "generate_pressure_field rows cols params =
     (case base_longitudinal_profile rows of
        Inl e \<Rightarrow> Inl e
      | Inr profile \<Rightarrow>
     (case getitem params ''arch_bias'' of
        Inl e \<Rightarrow> Inl e
      | Inr arch_bias \<Rightarrow>
     (case apply_arch_bias rows profile arch_bias of
        Inl e \<Rightarrow> Inl e
      | Inr biased \<Rightarrow>
     (case expand_to_grid cols biased of
        Inl e \<Rightarrow> Inl e
      | Inr g \<Rightarrow>
     (case getitem params ''contact_capacity'' of
        Inl e \<Rightarrow> Inl e
      | Inr capacity \<Rightarrow>
     (case getitem params ''stiffness_factor'' of
        Inl e \<Rightarrow> Inl e
      | Inr stiffness_factor \<Rightarrow>
     (case apply_contact_capacity g capacity of
        None \<Rightarrow>
          (case smooth_steps stiffness_factor 3 of
             Inl e \<Rightarrow> Inl e
           | Inr steps \<Rightarrow> Inr None)
      | Some shaped \<Rightarrow>
          (case smooth_grid_bounded shaped stiffness_factor 3 of
             Inl e \<Rightarrow> Inl e
           | Inr smoothed \<Rightarrow> Inr (Some smoothed)))))))))"


text \<open>The parameter record of the end-to-end example of the specification.\<close>

definition example_params :: params where
  "example_params =
     [''arch_bias'' \<mapsto> 0.1, ''contact_capacity'' \<mapsto> 0.8, ''stiffness_factor'' \<mapsto> 1.0]"

subsection \<open>The smoothing pass in the words of the specification\<close>

text \<open>
  The specification describes a pass without the loops: every cell becomes the mean
  of its own value and of each of its orthogonal neighbours (up, down, left, right)
  that exists, all values being those of the array before the pass. The definitions
  below follow these words; they are compared with \<open>smooth_pass\<close> further down.
\<close>

definition exists_in :: "grid \<Rightarrow> int \<times> int \<Rightarrow> bool" where
  "exists_in g p \<longleftrightarrow>
     0 \<le> fst p \<and> fst p < int (nrows g) \<and> 0 \<le> snd p \<and> snd p < int (ncols g)"

definition own_and_orthogonal :: "nat \<Rightarrow> nat \<Rightarrow> (int \<times> int) list" where
  "own_and_orthogonal i j =
     [(int i, int j), (int i - 1, int j), (int i + 1, int j),
      (int i, int j - 1), (int i, int j + 1)]"

definition averaged_values :: "grid \<Rightarrow> nat \<Rightarrow> nat \<Rightarrow> real list" where
  "averaged_values g i j =
     map (\<lambda>p. cells g ! nat (fst p) ! nat (snd p))
       (filter (exists_in g) (own_and_orthogonal i j))"

definition mean :: "real list \<Rightarrow> real" where
  "mean vs = sum_list vs / real (length vs)"

definition snapshot_pass :: "grid \<Rightarrow> grid" where
  "snapshot_pass g =
     g\<lparr>cells := map (\<lambda>i. map (\<lambda>j. mean (averaged_values g i j)) [0..<ncols g])
                   [0..<nrows g]\<rparr>"

text \<open>The cells on the border of an array, and those in its corners.\<close>

definition on_edge :: "grid \<Rightarrow> nat \<Rightarrow> nat \<Rightarrow> bool" where
  "on_edge g i j \<longleftrightarrow> i = 0 \<or> i = nrows g - 1 \<or> j = 0 \<or> j = ncols g - 1"

definition in_corner :: "grid \<Rightarrow> nat \<Rightarrow> nat \<Rightarrow> bool" where
  "in_corner g i j \<longleftrightarrow> (i = 0 \<or> i = nrows g - 1) \<and> (j = 0 \<or> j = ncols g - 1)"

text \<open>The values of all cells of an array.\<close>

definition cell_values :: "grid \<Rightarrow> real set" where
  "cell_values g = set (concat (cells g))"

subsection \<open>The module on a store of arrays\<close>

text \<open>
  The arrays of a run live in a store: the one-dimensional arrays in \<open>vectors\<close>, the
  two-dimensional ones in \<open>matrices\<close>. An address is an index into one of the two
  lists, and a variable of the source holds an address. A two-dimensional array
  holding nan or inf is \<open>None\<close>, as in the functions on values above. The dict
  \<open>params\<close> is only read by the module and stays a value.
\<close>

record store =
  vectors :: "real list list"
  matrices :: "grid option list"
















text \<open>
  A store extends another one when every array of the first is in the second, at
  the same address and with the same contents.
\<close>

definition extends :: "store \<Rightarrow> store \<Rightarrow> bool" where
  "extends \<sigma> \<sigma>' \<longleftrightarrow>
     take (length (vectors \<sigma>)) (vectors \<sigma>') = vectors \<sigma>
     \<and> take (length (matrices \<sigma>)) (matrices \<sigma>') = matrices \<sigma>"

section \<open>Rounding to float64\<close>

lemma round_half_even_of_int [simp]: "round_half_even (real_of_int n) = n"
  by (simp add: round_half_even_def)

lemma round_half_even_le: "x \<le> real_of_int n \<Longrightarrow> round_half_even x \<le> n"
proof -
  assume le: "x \<le> real_of_int n"
  have f: "\<lfloor>x\<rfloor> \<le> n"
    using le by (simp add: floor_le_iff) 
  show ?thesis
  proof (cases "\<lfloor>x\<rfloor> = n")
    case True
    then have "x = real_of_int n"
      using le by linarith
    then show ?thesis by simp
  next
    case False
    with f have "\<lfloor>x\<rfloor> + 1 \<le> n" by simp
    then show ?thesis
      by (auto simp: round_half_even_def Let_def)
  qed
qed

lemma round_half_even_ge: "real_of_int n \<le> x \<Longrightarrow> n \<le> round_half_even x"
proof -
  assume "real_of_int n \<le> x"
  then have "n \<le> \<lfloor>x\<rfloor>"
    by (simp add: le_floor_iff)
  then show ?thesis
    by (auto simp: round_half_even_def Let_def)
qed

lemma round_half_even_abs_le:
  "\<bar>x\<bar> \<le> real_of_int n \<Longrightarrow> \<bar>round_half_even x\<bar> \<le> n"
  using round_half_even_le [of x n] round_half_even_ge [of "- n" x] by (simp add: abs_le_iff)

lemma two_powr_int: "(2::real) powr real_of_int k = 2 powi k"
  by (simp add: powr_real_of_int')

lemma two_powr_int_Suc: "(2::real) powr (real_of_int k + 1) = 2 powi (k + 1)"
  using two_powr_int [of "k + 1"] by simp

lemma floor_log2_bounds:
  assumes "x \<noteq> 0"
  shows "2 powi \<lfloor>log 2 \<bar>x\<bar>\<rfloor> \<le> \<bar>x\<bar>" "\<bar>x\<bar> < 2 powi (\<lfloor>log 2 \<bar>x\<bar>\<rfloor> + 1)"
proof -
  have pos: "0 < \<bar>x\<bar>" using assms by simp
  have "2 powr real_of_int \<lfloor>log 2 \<bar>x\<bar>\<rfloor> \<le> \<bar>x\<bar> \<and> \<bar>x\<bar> < 2 powr real_of_int (\<lfloor>log 2 \<bar>x\<bar>\<rfloor> + 1)"
    using floor_log_eq_powr_iff [OF pos, of 2 "\<lfloor>log 2 \<bar>x\<bar>\<rfloor>"] by simp
  then show "2 powi \<lfloor>log 2 \<bar>x\<bar>\<rfloor> \<le> \<bar>x\<bar>" "\<bar>x\<bar> < 2 powi (\<lfloor>log 2 \<bar>x\<bar>\<rfloor> + 1)"
    by (simp_all add: two_powr_int two_powr_int_Suc)
qed

lemma floor_log2_eq:
  assumes "2 powi k \<le> \<bar>x\<bar>" "\<bar>x\<bar> < 2 powi (k + 1)"
  shows "\<lfloor>log 2 \<bar>x\<bar>\<rfloor> = k"
proof -
  have pos: "0 < \<bar>x\<bar>"
  proof -
    have "(0::real) < 2 powi k" by simp
    with assms(1) show ?thesis by linarith
  qed
  show ?thesis
    using floor_log_eq_powr_iff [OF pos, of 2 k] assms
    by (simp add: two_powr_int two_powr_int_Suc)
qed

lemma floor_log2_le:
  assumes "x \<noteq> 0" "\<bar>x\<bar> \<le> 2 powi k"
  shows "\<lfloor>log 2 \<bar>x\<bar>\<rfloor> \<le> k"
proof (rule ccontr)
  assume "\<not> \<lfloor>log 2 \<bar>x\<bar>\<rfloor> \<le> k"
  then have "k + 1 \<le> \<lfloor>log 2 \<bar>x\<bar>\<rfloor>" by simp
  then have "(2::real) powi (k + 1) \<le> 2 powi \<lfloor>log 2 \<bar>x\<bar>\<rfloor>"
    by (intro power_int_increasing) simp_all
  also have "\<dots> \<le> \<bar>x\<bar>"
    using floor_log2_bounds(1) [OF assms(1)] .
  finally have "(2::real) powi (k + 1) \<le> 2 powi k"
    using assms(2) by simp
  then show False
    by (simp add: power_int_add)
qed


lemma two_powi_le_abs_nonzero: "2 powi k \<le> \<bar>x\<bar> \<Longrightarrow> x \<noteq> (0::real)"
proof
  assume "2 powi k \<le> \<bar>x\<bar>" "x = 0"
  moreover have "(0::real) < 2 powi k" by simp
  ultimately show False by linarith
qed

lemma floor_log2_less:
  assumes "x \<noteq> 0" "\<bar>x\<bar> < 2 powi k"
  shows "\<lfloor>log 2 \<bar>x\<bar>\<rfloor> < k"
proof (rule ccontr)
  assume "\<not> \<lfloor>log 2 \<bar>x\<bar>\<rfloor> < k"
  then have "k \<le> \<lfloor>log 2 \<bar>x\<bar>\<rfloor>" by simp
  then have "(2::real) powi k \<le> 2 powi \<lfloor>log 2 \<bar>x\<bar>\<rfloor>"
    by (intro power_int_increasing) simp_all
  also have "\<dots> \<le> \<bar>x\<bar>"
    using floor_log2_bounds(1) [OF assms(1)] .
  finally show False
    using assms(2) by simp
qed

lemma floor_log2_ge:
  assumes "2 powi k \<le> \<bar>x\<bar>"
  shows "k \<le> \<lfloor>log 2 \<bar>x\<bar>\<rfloor>"
proof (rule ccontr)
  assume "\<not> k \<le> \<lfloor>log 2 \<bar>x\<bar>\<rfloor>"
  then have "\<lfloor>log 2 \<bar>x\<bar>\<rfloor> + 1 \<le> k" by simp
  then have "(2::real) powi (\<lfloor>log 2 \<bar>x\<bar>\<rfloor> + 1) \<le> 2 powi k"
    by (intro power_int_increasing) simp_all
  moreover have "x \<noteq> 0"
    using assms by (rule two_powi_le_abs_nonzero)
  ultimately show False
    using floor_log2_bounds(2) [of x] assms by linarith
qed

lemma two_powi_split: "j \<le> k \<Longrightarrow> (2::real) powi k = real_of_int (2 ^ nat (k - j)) * 2 powi j"
proof -
  assume "j \<le> k"
  then have "(2::real) powi k = 2 powi (int (nat (k - j)) + j)"
    by simp
  also have "\<dots> = 2 powi int (nat (k - j)) * 2 powi j"
    by (rule power_int_add) simp
  also have "(2::real) powi int (nat (k - j)) = 2 ^ nat (k - j)"
    by (rule power_int_of_nat)
  finally show ?thesis
    by simp
qed

lemma float64_round_unfold:
  "x \<noteq> 0 \<Longrightarrow>
   float64_round x =
     real_of_int (round_half_even (x / 2 powi quantum_exponent x)) * 2 powi quantum_exponent x"
  by (simp add: float64_round_def)

text \<open>A number with at most 53 significant bits and an exponent in range is kept.\<close>

lemma float64_round_representable:
  assumes m: "\<bar>m\<bar> < 2 ^ 53" and j: "- 1074 \<le> j"
  shows "float64_round (real_of_int m * 2 powi j) = real_of_int m * 2 powi j"
proof (cases "m = 0")
  case True
  then show ?thesis by (simp add: float64_round_def)
next
  case False
  define x where "x = real_of_int m * 2 powi j"
  have x0: "x \<noteq> 0"
    using False by (simp add: x_def)
  have "\<bar>x\<bar> = real_of_int \<bar>m\<bar> * 2 powi j"
    by (simp add: x_def abs_mult)
  also have "\<dots> < 2 ^ 53 * 2 powi j"
  proof -
    have "real_of_int \<bar>m\<bar> < real_of_int (2 ^ 53)"
      using m by (simp only: of_int_less_iff)
    then show ?thesis by simp
  qed
  also have "\<dots> = 2 powi (53 + j)"
    by (simp add: power_int_add)
  finally have "\<lfloor>log 2 \<bar>x\<bar>\<rfloor> < 53 + j"
    using x0 by (intro floor_log2_less)
  then have q: "quantum_exponent x \<le> j"
    using j by (simp add: quantum_exponent_def)
  define qe where "qe = quantum_exponent x"
  define N :: int where "N = 2 ^ nat (j - qe)"
  have split: "(2::real) powi j = real_of_int N * 2 powi qe"
    unfolding N_def qe_def by (rule two_powi_split [OF q])
  have xN: "x = real_of_int (m * N) * 2 powi qe"
    unfolding x_def split by simp
  have "x / 2 powi qe = real_of_int (m * N)"
    unfolding xN by simp
  then have "round_half_even (x / 2 powi qe) = m * N"
    by (simp only: round_half_even_of_int)
  then have "float64_round x = real_of_int (m * N) * 2 powi qe"
    using x0 by (simp add: float64_round_unfold qe_def)
  then have "float64_round x = x"
    using xN by simp
  then show ?thesis
    by (simp only: x_def)
qed

lemma float64_round_int:
  "\<bar>n\<bar> < 2 ^ 53 \<Longrightarrow> float64_round (real_of_int n) = real_of_int n"
  using float64_round_representable [of n 0] by simp

text \<open>Rounding keeps the sign.\<close>

lemma float64_round_nonneg: "0 \<le> x \<Longrightarrow> 0 \<le> float64_round x"
proof -
  assume "0 \<le> x"
  then have "0 \<le> x / 2 powi quantum_exponent x"
    by simp
  then have "0 \<le> round_half_even (x / 2 powi quantum_exponent x)"
    using round_half_even_ge [of 0] by simp
  then show ?thesis
    by (simp add: float64_round_def)
qed

lemma float64_round_nonpos: "x \<le> 0 \<Longrightarrow> float64_round x \<le> 0"
proof -
  assume "x \<le> 0"
  then have "x / 2 powi quantum_exponent x \<le> 0"
    by (simp add: divide_nonpos_pos)
  then have "round_half_even (x / 2 powi quantum_exponent x) \<le> 0"
    using round_half_even_le [of _ 0] by simp
  then show ?thesis
    by (simp add: float64_round_def mult_nonpos_nonneg)
qed

text \<open>Rounding does not cross a power of two.\<close>

lemma float64_round_abs_le:
  assumes "\<bar>x\<bar> \<le> 2 powi k" "- 1074 \<le> k"
  shows "\<bar>float64_round x\<bar> \<le> 2 powi k"
proof (cases "x = 0")
  case True
  then show ?thesis by (simp add: float64_round_def)
next
  case False
  have "\<lfloor>log 2 \<bar>x\<bar>\<rfloor> \<le> k"
    using False assms(1) by (rule floor_log2_le)
  then have q: "quantum_exponent x \<le> k"
    using assms(2) by (simp add: quantum_exponent_def)
  define N :: int where "N = 2 ^ nat (k - quantum_exponent x)"
  have k: "(2::real) powi k = real_of_int N * 2 powi quantum_exponent x"
    unfolding N_def by (rule two_powi_split [OF q])
  have "\<bar>x / 2 powi quantum_exponent x\<bar> \<le> real_of_int N"
    using assms(1) by (simp add: k pos_divide_le_eq)
  then have "\<bar>round_half_even (x / 2 powi quantum_exponent x)\<bar> \<le> N"
    by (rule round_half_even_abs_le)
  then have "real_of_int \<bar>round_half_even (x / 2 powi quantum_exponent x)\<bar> \<le> real_of_int N"
    by (simp only: of_int_le_iff)
  then have "\<bar>float64_round x\<bar> \<le> real_of_int N * 2 powi quantum_exponent x"
    using False by (simp add: float64_round_unfold abs_mult)
  then show ?thesis
    by (simp add: k)
qed

lemma round_half_even_abs_ge:
  "real_of_int n \<le> \<bar>x\<bar> \<Longrightarrow> n \<le> \<bar>round_half_even x\<bar>"
  using round_half_even_ge [of n x] round_half_even_le [of x "- n"] by (cases "0 \<le> x") auto

lemma float64_round_abs_ge_aux:
  assumes "2 powi k \<le> \<bar>x\<bar>" and q: "quantum_exponent x \<le> k"
  shows "2 powi k \<le> \<bar>float64_round x\<bar>"
proof -
  have x0: "x \<noteq> 0"
    using assms(1) by (rule two_powi_le_abs_nonzero)
  define N :: int where "N = 2 ^ nat (k - quantum_exponent x)"
  have k: "(2::real) powi k = real_of_int N * 2 powi quantum_exponent x"
    unfolding N_def by (rule two_powi_split [OF q])
  have "real_of_int N \<le> \<bar>x / 2 powi quantum_exponent x\<bar>"
    using assms(1) by (simp add: k pos_le_divide_eq)
  then have "N \<le> \<bar>round_half_even (x / 2 powi quantum_exponent x)\<bar>"
    by (rule round_half_even_abs_ge)
  then have "real_of_int N \<le> real_of_int \<bar>round_half_even (x / 2 powi quantum_exponent x)\<bar>"
    by (simp only: of_int_le_iff)
  then have "real_of_int N * 2 powi quantum_exponent x \<le> \<bar>float64_round x\<bar>"
    using x0 by (simp add: float64_round_unfold abs_mult)
  then show ?thesis
    by (simp add: k)
qed

lemma float64_round_abs_ge:
  assumes "2 powi k \<le> \<bar>x\<bar>" "- 1074 \<le> k"
  shows "2 powi k \<le> \<bar>float64_round x\<bar>"
proof (cases "quantum_exponent x \<le> k")
  case True
  with assms(1) show ?thesis by (rule float64_round_abs_ge_aux)
next
  case False
  define e where "e = \<lfloor>log 2 \<bar>x\<bar>\<rfloor>"
  have x0: "x \<noteq> 0"
    using assms(1) by (rule two_powi_le_abs_nonzero)
  have ke: "k \<le> e"
    unfolding e_def using assms(1) by (rule floor_log2_ge)
  have "- 1022 < e"
    using False assms(2) by (simp add: quantum_exponent_def e_def max_def split: if_splits)
  then have q: "quantum_exponent x \<le> e"
    by (simp add: quantum_exponent_def e_def)
  have "2 powi e \<le> \<bar>x\<bar>"
    unfolding e_def using floor_log2_bounds(1) [OF x0] .
  then have "2 powi e \<le> \<bar>float64_round x\<bar>"
    using q by (rule float64_round_abs_ge_aux)
  moreover have "(2::real) powi k \<le> 2 powi e"
    using ke by (intro power_int_increasing) simp_all
  ultimately show ?thesis
    by linarith
qed


text \<open>Rounding computed from the binade of the argument.\<close>

lemma float64_round_normal:
  assumes "2 powi k \<le> \<bar>x\<bar>" "\<bar>x\<bar> < 2 powi (k + 1)" "- 1022 \<le> k"
  shows "float64_round x = real_of_int (round_half_even (x / 2 powi (k - 52))) * 2 powi (k - 52)"
proof -
  have x0: "x \<noteq> 0"
    using assms(1) by (rule two_powi_le_abs_nonzero)
  have "\<lfloor>log 2 \<bar>x\<bar>\<rfloor> = k"
    using assms(1,2) by (rule floor_log2_eq)
  then have "quantum_exponent x = k - 52"
    using assms(3) by (simp add: quantum_exponent_def)
  then show ?thesis
    using x0 by (simp add: float64_round_unfold)
qed

text \<open>Rounding does not cross an integer of at most 53 bits.\<close>

lemma float64_round_le_int:
  assumes n: "\<bar>n\<bar> \<le> 2 ^ 53" and le: "x \<le> real_of_int n"
  shows "float64_round x \<le> real_of_int n"
proof (cases "x = 0")
  case True
  then show ?thesis using le by (simp add: float64_round_def)
next
  case x0: False
  define qe where "qe = quantum_exponent x"
  show ?thesis
  proof (cases "qe \<le> 0")
    case True
    define M :: int where "M = n * 2 ^ nat (- qe)"
    have one: "(1::real) = real_of_int (2 ^ nat (- qe)) * 2 powi qe"
      using two_powi_split [of qe 0] True by simp
    have nM: "real_of_int n = real_of_int M * 2 powi qe"
    proof -
      have "real_of_int n = real_of_int n * (real_of_int (2 ^ nat (- qe)) * 2 powi qe)"
        using one by simp
      then show ?thesis by (simp add: M_def mult.assoc)
    qed
    have "x / 2 powi qe \<le> real_of_int M"
      using le by (simp add: nM pos_divide_le_eq)
    then have "round_half_even (x / 2 powi qe) \<le> M"
      by (rule round_half_even_le)
    then have "real_of_int (round_half_even (x / 2 powi qe)) \<le> real_of_int M"
      by (simp only: of_int_le_iff)
    then have "float64_round x \<le> real_of_int M * 2 powi qe"
      using x0 by (simp add: float64_round_unfold qe_def)
    then show ?thesis
      by (simp only: nM)
  next
    case False
    then have "53 \<le> \<lfloor>log 2 \<bar>x\<bar>\<rfloor>"
      by (simp add: qe_def quantum_exponent_def max_def split: if_splits)
    then have "(2::real) powi 53 \<le> 2 powi \<lfloor>log 2 \<bar>x\<bar>\<rfloor>"
      by (intro power_int_increasing) simp_all
    then have big: "2 powi 53 \<le> \<bar>x\<bar>"
      using floor_log2_bounds(1) [OF x0] by linarith
    have nr: "real_of_int n \<le> 2 powi 53"
    proof -
      have "n \<le> 2 ^ 53" using n by simp
      then have "real_of_int n \<le> real_of_int (2 ^ 53)"
        by (simp only: of_int_le_iff)
      then show ?thesis by simp
    qed
    have nl: "- (2 powi 53) \<le> real_of_int n"
    proof -
      have "- (2 ^ 53) \<le> n" using n by simp
      then have "real_of_int (- (2 ^ 53)) \<le> real_of_int n"
        by (simp only: of_int_le_iff)
      then show ?thesis by simp
    qed
    show ?thesis
    proof (cases "0 \<le> x")
      case True
      with big le nr have "x = real_of_int n"
        by linarith
      moreover have "real_of_int n = 2 powi 53"
        using big le nr True by linarith
      moreover have "float64_round (real_of_int 1 * 2 powi 53) = real_of_int 1 * 2 powi 53"
        by (rule float64_round_representable) simp_all
      ultimately show ?thesis
        by simp
    next
      case False
      then have "float64_round x \<le> 0"
        by (intro float64_round_nonpos) simp
      moreover have "2 powi 53 \<le> \<bar>float64_round x\<bar>"
        using big by (rule float64_round_abs_ge) simp
      ultimately show ?thesis
        using nl by linarith
    qed
  qed
qed

lemma float64_round_ge_int:
  assumes n: "\<bar>n\<bar> \<le> 2 ^ 53" and ge: "real_of_int n \<le> x"
  shows "real_of_int n \<le> float64_round x"
proof (cases "x = 0")
  case True
  then show ?thesis using ge by (simp add: float64_round_def)
next
  case x0: False
  define qe where "qe = quantum_exponent x"
  show ?thesis
  proof (cases "qe \<le> 0")
    case True
    define M :: int where "M = n * 2 ^ nat (- qe)"
    have one: "(1::real) = real_of_int (2 ^ nat (- qe)) * 2 powi qe"
      using two_powi_split [of qe 0] True by simp
    have nM: "real_of_int n = real_of_int M * 2 powi qe"
    proof -
      have "real_of_int n = real_of_int n * (real_of_int (2 ^ nat (- qe)) * 2 powi qe)"
        using one by simp
      then show ?thesis by (simp add: M_def mult.assoc)
    qed
    have "real_of_int M \<le> x / 2 powi qe"
      using ge by (simp add: nM pos_le_divide_eq)
    then have "M \<le> round_half_even (x / 2 powi qe)"
      by (rule round_half_even_ge)
    then have "real_of_int M \<le> real_of_int (round_half_even (x / 2 powi qe))"
      by (simp only: of_int_le_iff)
    then have "real_of_int M * 2 powi qe \<le> float64_round x"
      using x0 by (simp add: float64_round_unfold qe_def)
    then show ?thesis
      by (simp only: nM)
  next
    case False
    then have "53 \<le> \<lfloor>log 2 \<bar>x\<bar>\<rfloor>"
      by (simp add: qe_def quantum_exponent_def max_def split: if_splits)
    then have "(2::real) powi 53 \<le> 2 powi \<lfloor>log 2 \<bar>x\<bar>\<rfloor>"
      by (intro power_int_increasing) simp_all
    then have big: "2 powi 53 \<le> \<bar>x\<bar>"
      using floor_log2_bounds(1) [OF x0] by linarith
    have nr: "real_of_int n \<le> 2 powi 53"
    proof -
      have "n \<le> 2 ^ 53" using n by simp
      then have "real_of_int n \<le> real_of_int (2 ^ 53)"
        by (simp only: of_int_le_iff)
      then show ?thesis by simp
    qed
    have nl: "- (2 powi 53) \<le> real_of_int n"
    proof -
      have "- (2 ^ 53) \<le> n" using n by simp
      then have "real_of_int (- (2 ^ 53)) \<le> real_of_int n"
        by (simp only: of_int_le_iff)
      then show ?thesis by simp
    qed
    show ?thesis
    proof (cases "x \<le> 0")
      case True
      with big ge nl have "x = real_of_int n"
        by linarith
      moreover have "real_of_int n = - (2 powi 53)"
        using big ge nl True by linarith
      moreover have "float64_round (real_of_int (- 1) * 2 powi 53) = real_of_int (- 1) * 2 powi 53"
        by (rule float64_round_representable) simp_all
      ultimately show ?thesis
        by simp
    next
      case False
      then have "0 \<le> float64_round x"
        by (intro float64_round_nonneg) simp
      moreover have "2 powi 53 \<le> \<bar>float64_round x\<bar>"
        using big by (rule float64_round_abs_ge) simp
      ultimately show ?thesis
        using nr by linarith
    qed
  qed
qed

lemma float64_overflow_gt: "2 powi 1023 < float64_overflow"
  by (simp add: float64_overflow_def)

lemma to_float64_finite:
  assumes "\<bar>x\<bar> \<le> 2 powi 1023"
  shows "to_float64 x = Finite (float64_round x)"
  using assms float64_overflow_gt by (simp add: to_float64_def)

lemma to_float64_zero [simp]: "to_float64 0 = Finite 0"
  by (simp add: to_float64_def float64_round_def float64_overflow_def)

lemma small_int_abs: "\<bar>n\<bar> < 2 ^ 53 \<Longrightarrow> \<bar>real_of_int n\<bar> \<le> 2 powi 1023"
proof -
  assume "\<bar>n\<bar> < 2 ^ 53"
  then have "real_of_int \<bar>n\<bar> < real_of_int (2 ^ 53)"
    by (simp only: of_int_less_iff)
  then have "\<bar>real_of_int n\<bar> < 2 ^ 53"
    by simp
  moreover have "(2::real) ^ 53 \<le> 2 powi 1023"
    by simp
  ultimately show ?thesis
    by linarith
qed

lemma to_float64_int:
  "\<bar>n\<bar> < 2 ^ 53 \<Longrightarrow> to_float64 (real_of_int n) = Finite (real_of_int n)"
  by (simp add: to_float64_finite small_int_abs float64_round_int)

lemma py_float_int: "\<bar>n\<bar> < 2 ^ 53 \<Longrightarrow> py_float n = Inr (Finite (real_of_int n))"
  by (simp add: py_float_def to_float64_int)

lemma py_float_cases:
  obtains "py_float n = Inl (OverflowError ''float'')" "float64_overflow \<le> \<bar>real_of_int n\<bar>"
  | "py_float n = Inr (Finite (float64_round (real_of_int n)))"
    "\<bar>real_of_int n\<bar> < float64_overflow"
  by (cases "\<bar>real_of_int n\<bar> < float64_overflow") (simp_all add: py_float_def to_float64_def)

section \<open>The number of smoothing passes\<close>

lemma int_of_product_Inr:
  assumes "int_of_product c n = Inr k"
  obtains d where "c = Finite d" "\<bar>real_of_int n\<bar> < float64_overflow"
    "\<bar>d * float64_round (real_of_int n)\<bar> < float64_overflow"
    "k = truncate_real (float64_round (d * float64_round (real_of_int n)))"
proof (cases n rule: py_float_cases)
  case 1
  then show ?thesis using assms by (simp add: int_of_product_def)
next
  case 2
  show ?thesis
  proof (cases c)
    case (Finite d)
    have p: "py_int (to_float64 (d * float64_round (real_of_int n))) = Inr k"
      using assms 2 Finite by (simp add: int_of_product_def)
    show ?thesis
    proof (cases "\<bar>d * float64_round (real_of_int n)\<bar> < float64_overflow")
      case True
      then have "k = truncate_real (float64_round (d * float64_round (real_of_int n)))"
        using p by (simp add: to_float64_def py_int_def)
      with Finite 2 True show ?thesis by (rule_tac that)
    next
      case False
      then show ?thesis using p by (simp add: to_float64_def py_int_def)
    qed
  next
    case (Infinity m)
    then show ?thesis
      using assms 2 by (simp add: int_of_product_def py_int_def split: if_splits)
  next
    case NaN
    then show ?thesis
      using assms 2 by (simp add: int_of_product_def py_int_def)
  qed
qed

lemma int_of_product_finite:
  assumes "\<bar>real_of_int n\<bar> < float64_overflow"
    "\<bar>d * float64_round (real_of_int n)\<bar> < float64_overflow"
  shows "int_of_product (Finite d) n
           = Inr (truncate_real (float64_round (d * float64_round (real_of_int n))))"
  using assms by (simp add: int_of_product_def py_float_def to_float64_def py_int_def)

lemma smooth_steps_Inr:
  assumes "smooth_steps s it = Inr k"
  obtains "\<bar>1 - s\<bar> < float64_overflow" "\<bar>real_of_int it\<bar> < float64_overflow"
    "k = truncate_real (float64_round (float64_round (1 - s) * float64_round (real_of_int it)))"
proof -
  from assms obtain d where d: "fsub (Finite 1) (Finite s) = Finite d"
    and it: "\<bar>real_of_int it\<bar> < float64_overflow"
    and k: "k = truncate_real (float64_round (d * float64_round (real_of_int it)))"
    unfolding smooth_steps_def by (auto elim: int_of_product_Inr)
  from d have "\<bar>1 - s\<bar> < float64_overflow" and "d = float64_round (1 - s)"
    by (auto simp: to_float64_def split: if_splits)
  with it k show ?thesis
    by (rule_tac that) simp_all
qed

lemma truncate_real_nonpos: "r \<le> 0 \<Longrightarrow> truncate_real r \<le> 0"
  by (auto simp: truncate_real_def ceiling_le_iff)

lemma truncate_real_ge_int: "0 \<le> n \<Longrightarrow> real_of_int n \<le> r \<Longrightarrow> n \<le> truncate_real r"
  by (auto simp: truncate_real_def le_floor_iff)

lemma truncate_real_le_int: "0 \<le> n \<Longrightarrow> r \<le> real_of_int n \<Longrightarrow> truncate_real r \<le> n"
  by (auto simp: truncate_real_def floor_le_iff ceiling_le_iff)

lemma truncate_real_of_int [simp]: "truncate_real (real_of_int n) = n"
  by (simp add: truncate_real_def)

lemma smooth_steps_overstiff:
  assumes "1 < s" "0 \<le> it" "smooth_steps s it = Inr k"
  shows "k \<le> 0"
proof -
  have d: "float64_round (1 - s) \<le> 0"
    using assms(1) by (intro float64_round_nonpos) simp
  have r: "0 \<le> float64_round (real_of_int it)"
    using assms(2) by (intro float64_round_nonneg) simp
  have "float64_round (1 - s) * float64_round (real_of_int it) \<le> 0"
    using d r by (rule mult_nonpos_nonneg)
  then have "float64_round (float64_round (1 - s) * float64_round (real_of_int it)) \<le> 0"
    by (rule float64_round_nonpos)
  then show ?thesis
    using assms(3) by (auto elim!: smooth_steps_Inr intro: truncate_real_nonpos)
qed

lemma smooth_steps_negative_stiffness:
  assumes "s < 0" "0 < it" "it < 2 ^ 53" "smooth_steps s it = Inr k"
  shows "it \<le> k"
proof -
  have "real_of_int 1 \<le> float64_round (1 - s)"
    using assms(1) by (intro float64_round_ge_int) simp_all
  then have d: "1 \<le> float64_round (1 - s)"
    by simp
  have r: "float64_round (real_of_int it) = real_of_int it"
    using assms(2,3) by (intro float64_round_int) simp
  have "real_of_int it \<le> float64_round (1 - s) * real_of_int it"
    using d assms(2) by (simp add: mult_le_cancel_right1)
  then have "real_of_int it \<le> float64_round (float64_round (1 - s) * real_of_int it)"
    using assms(2,3) by (intro float64_round_ge_int) simp_all
  then have "it \<le> truncate_real (float64_round (float64_round (1 - s) * real_of_int it))"
    using assms(2) by (intro truncate_real_ge_int) simp_all
  then show ?thesis
    using assms(4) by (auto elim!: smooth_steps_Inr simp: r)
qed

lemma smooth_steps_within_budget:
  assumes "0 \<le> s" "0 \<le> it" "it < 2 ^ 53" "smooth_steps s it = Inr k"
  shows "k \<le> it"
proof -
  have "float64_round (1 - s) \<le> real_of_int 1"
    using assms(1) by (intro float64_round_le_int) simp_all
  then have d: "float64_round (1 - s) \<le> 1"
    by simp
  have r: "float64_round (real_of_int it) = real_of_int it"
    using assms(2,3) by (intro float64_round_int) simp
  have "float64_round (1 - s) * real_of_int it \<le> real_of_int it"
    using d assms(2) by (simp add: mult_le_cancel_right2)
  then have "float64_round (float64_round (1 - s) * real_of_int it) \<le> real_of_int it"
    using assms(2,3) by (intro float64_round_le_int) simp_all
  then have "truncate_real (float64_round (float64_round (1 - s) * real_of_int it)) \<le> it"
    using assms(2) by (intro truncate_real_le_int) simp_all
  then show ?thesis
    using assms(4) by (auto elim!: smooth_steps_Inr simp: r)
qed

lemma smooth_steps_returns:
  assumes s: "\<bar>s\<bar> \<le> 2 ^ 1000" and it: "\<bar>it\<bar> \<le> 2 ^ 20"
  shows "\<exists>k. smooth_steps s it = Inr k"
proof -
  have "\<bar>1 - s\<bar> \<le> 1 + 2 ^ 1000"
    using s by linarith
  also have "\<dots> \<le> 2 powi 1001"
    by simp
  finally have ds: "\<bar>1 - s\<bar> \<le> 2 powi 1001" .
  then have dr: "\<bar>float64_round (1 - s)\<bar> \<le> 2 powi 1001"
    by (rule float64_round_abs_le) simp
  have sub: "fsub (Finite 1) (Finite s) = Finite (float64_round (1 - s))"
  proof -
    have "\<bar>1 - s\<bar> \<le> 2 powi 1023"
      using ds by (rule order_trans) simp
    then show ?thesis
      by (simp add: to_float64_finite)
  qed
  have it53: "\<bar>it\<bar> < 2 ^ 53"
    using it by simp
  have r: "float64_round (real_of_int it) = real_of_int it"
    using it53 by (rule float64_round_int)
  have ir: "\<bar>real_of_int it\<bar> \<le> 2 ^ 20"
  proof -
    have "real_of_int \<bar>it\<bar> \<le> real_of_int (2 ^ 20)"
      using it by (simp only: of_int_le_iff)
    then show ?thesis by simp
  qed
  have "\<bar>float64_round (1 - s) * real_of_int it\<bar> \<le> 2 powi 1001 * 2 ^ 20"
    unfolding abs_mult using dr ir by (intro mult_mono) simp_all
  also have "\<dots> < float64_overflow"
    by (simp add: float64_overflow_def)
  finally have prod: "\<bar>float64_round (1 - s) * float64_round (real_of_int it)\<bar> < float64_overflow"
    by (simp add: r)
  have "\<bar>real_of_int it\<bar> < float64_overflow"
    using small_int_abs [OF it53] float64_overflow_gt by linarith
  then show ?thesis
    unfolding smooth_steps_def using prod sub by (simp add: int_of_product_finite)
qed

lemma to_float64_eq:
  "\<bar>x\<bar> < float64_overflow \<Longrightarrow> float64_round x = r \<Longrightarrow> to_float64 x = Finite r"
  by (simp add: to_float64_def)

lemma smooth_steps_eval:
  assumes "to_float64 (1 - s) = Finite d" "py_float it = Inr (Finite r)" "to_float64 (d * r) = p"
  shows "smooth_steps s it = py_int p"
  using assms by (simp add: smooth_steps_def int_of_product_def)

lemma py_int_Finite: "py_int (Finite r) = Inr (truncate_real r)"
  by (simp add: py_int_def)

lemma steps_stiff: "smooth_steps 1 3 = Inr 0"
proof -
  have "to_float64 (1 - 1) = Finite 0" by simp
  moreover have "py_float 3 = Inr (Finite 3)"
    using py_float_int [of 3] by simp
  moreover have "to_float64 (0 * 3) = Finite 0" by simp
  ultimately have "smooth_steps 1 3 = py_int (Finite 0)"
    by (rule smooth_steps_eval)
  then show ?thesis
    by (simp add: py_int_Finite truncate_real_def)
qed

lemma steps_soft: "smooth_steps 0 3 = Inr 3"
proof -
  have "to_float64 (1 - 0) = Finite 1"
    using to_float64_int [of 1] by simp
  moreover have "py_float 3 = Inr (Finite 3)"
    using py_float_int [of 3] by simp
  moreover have "to_float64 (1 * 3) = Finite 3"
    using to_float64_int [of 3] by simp
  ultimately have "smooth_steps 0 3 = py_int (Finite 3)"
    by (rule smooth_steps_eval)
  then show ?thesis
    by (simp add: py_int_Finite truncate_real_def)
qed

lemma steps_minus_one: "smooth_steps (- 1) 3 = Inr 6"
proof -
  have "to_float64 (1 - - 1) = Finite 2"
    using to_float64_int [of 2] by simp
  moreover have "py_float 3 = Inr (Finite 3)"
    using py_float_int [of 3] by simp
  moreover have "to_float64 (2 * 3) = Finite 6"
    using to_float64_int [of 6] by simp
  ultimately have "smooth_steps (- 1) 3 = py_int (Finite 6)"
    by (rule smooth_steps_eval)
  then show ?thesis
    by (simp add: py_int_Finite truncate_real_def)
qed

lemma round_big: "float64_round (1 - 2 ^ 1023) = - (2 ^ 1023)"
  using float64_round_normal [of 1022 "1 - 2 ^ 1023"]
  by (simp add: round_half_even_def)

lemma steps_overflow: "smooth_steps (2 ^ 1023) 3 = Inl (OverflowError ''int'')"
proof -
  have "to_float64 (1 - 2 ^ 1023) = Finite (- (2 ^ 1023))"
    by (rule to_float64_eq) (simp add: float64_overflow_def, rule round_big)
  moreover have "py_float 3 = Inr (Finite 3)"
    using py_float_int [of 3] by simp
  moreover have "to_float64 (- (2 ^ 1023) * 3) = Infinity True"
    by (simp add: to_float64_def float64_overflow_def)
  ultimately have "smooth_steps (2 ^ 1023) 3 = py_int (Infinity True)"
    by (rule smooth_steps_eval)
  then show ?thesis
    by (simp add: py_int_def)
qed

lemma round_two_thirds:
  "float64_round (1 - 3002399751580331 / 2 ^ 53) = 6004799503160661 / 2 ^ 53"
  using float64_round_representable [of 6004799503160661 "- 53"]
  by (simp add: power_int_minus_divide)

lemma round_knife: "float64_round (6004799503160661 / 2 ^ 53 * 3) = 2"
  using float64_round_normal [of 0 "6004799503160661 / 2 ^ 53 * 3"]
  by (simp add: round_half_even_def)

lemma steps_knife: "smooth_steps (3002399751580331 / 2 ^ 53) 3 = Inr 2"
proof -
  have "to_float64 (1 - 3002399751580331 / 2 ^ 53) = Finite (6004799503160661 / 2 ^ 53)"
    by (rule to_float64_eq) (simp add: float64_overflow_def, rule round_two_thirds)
  moreover have "py_float 3 = Inr (Finite 3)"
    using py_float_int [of 3] by simp
  moreover have "to_float64 (6004799503160661 / 2 ^ 53 * 3) = Finite 2"
    by (rule to_float64_eq) (simp add: float64_overflow_def, rule round_knife)
  ultimately have "smooth_steps (3002399751580331 / 2 ^ 53) 3 = py_int (Finite 2)"
    by (rule smooth_steps_eval)
  then show ?thesis
    by (simp add: py_int_Finite truncate_real_def)
qed

lemma floor_knife: "\<lfloor>(1 - 3002399751580331 / 2 ^ 53) * real_of_int 3\<rfloor> = 1"
  by simp

lemma round_tenth: "float64_round (1 - - (3602879701896397 / 2 ^ 55)) = 4953959590107546 / 2 ^ 52"
  using float64_round_normal [of 0 "1 - - (3602879701896397 / 2 ^ 55)"]
  by (simp add: round_half_even_def)

lemma round_tenth3: "float64_round (4953959590107546 / 2 ^ 52 * 3) = 7430939385161319 / 2 ^ 51"
  using float64_round_normal [of 1 "4953959590107546 / 2 ^ 52 * 3"]
  by (simp add: round_half_even_def)

lemma steps_tenth: "smooth_steps (- (3602879701896397 / 2 ^ 55)) 3 = Inr 3"
proof -
  have "to_float64 (1 - - (3602879701896397 / 2 ^ 55)) = Finite (4953959590107546 / 2 ^ 52)"
    by (rule to_float64_eq) (simp add: float64_overflow_def, rule round_tenth)
  moreover have "py_float 3 = Inr (Finite 3)"
    using py_float_int [of 3] by simp
  moreover have "to_float64 (4953959590107546 / 2 ^ 52 * 3) = Finite (7430939385161319 / 2 ^ 51)"
    by (rule to_float64_eq) (simp add: float64_overflow_def, rule round_tenth3)
  ultimately have "smooth_steps (- (3602879701896397 / 2 ^ 55)) 3
                     = py_int (Finite (7430939385161319 / 2 ^ 51))"
    by (rule smooth_steps_eval)
  then show ?thesis
    by (simp add: py_int_Finite truncate_real_def)
qed

lemma fold_ignore_funpow: "fold (\<lambda>_. f) xs a = (f ^^ length xs) a"
  by (induction xs arbitrary: a) (simp_all add: funpow_swap1)

lemma length_py_range: "length (py_range n) = nat n"
  by (simp add: py_range_def)

lemma smooth_grid_bounded_funpow:
  "smooth_grid_bounded g s it =
     (case smooth_steps s it of
        Inl e \<Rightarrow> Inl e
      | Inr k \<Rightarrow> Inr ((smooth_pass (nrows g) (ncols g) ^^ nat k) g))"
  by (simp add: smooth_grid_bounded_def Let_def fold_ignore_funpow length_py_range
      split: sum.splits)

lemma smooth_steps_stiff: "\<bar>it\<bar> < 2 ^ 53 \<Longrightarrow> smooth_steps 1 it = Inr 0"
proof -
  assume it: "\<bar>it\<bar> < 2 ^ 53"
  have "to_float64 (1 - 1) = Finite 0" by simp
  moreover have "py_float it = Inr (Finite (real_of_int it))"
    using it by (rule py_float_int)
  moreover have "to_float64 (0 * real_of_int it) = Finite 0" by simp
  ultimately have "smooth_steps 1 it = py_int (Finite 0)"
    by (rule smooth_steps_eval)
  then show ?thesis
    by (simp add: py_int_Finite truncate_real_def)
qed

text \<open>
  Claim C4, as the code has it. The smoother runs
  \<^verbatim>\<open>int((1.0 - stiffness_factor) * iterations)\<close> averaging passes, a negative count
  meaning none, where the product is a float64 product. With \<open>stiffness_factor = 1\<close>
  the array comes back unchanged; with \<open>stiffness_factor = 0\<close> and \<open>iterations = 3\<close>
  the pass is applied exactly three times. For \<open>stiffness_factor > 1\<close> and a
  non-negative budget the count is not positive and the array comes back unchanged
  whenever the call returns, and it returns for \<open>stiffness_factor\<close> up to
  \<open>2 ^ 1000\<close> and a budget up to \<open>2 ^ 20\<close>.
\<close>

theorem smooth_pass_count:
  "smooth_grid_bounded g s it =
     (case smooth_steps s it of
        Inl e \<Rightarrow> Inl e
      | Inr k \<Rightarrow> Inr ((smooth_pass (nrows g) (ncols g) ^^ nat k) g))
   \<and> (\<bar>it\<bar> < 2 ^ 53 \<longrightarrow> smooth_steps 1 it = Inr 0 \<and> smooth_grid_bounded g 1 it = Inr g)
   \<and> smooth_steps 0 3 = Inr 3
   \<and> smooth_grid_bounded g 0 3
       = Inr (smooth_pass (nrows g) (ncols g)
               (smooth_pass (nrows g) (ncols g) (smooth_pass (nrows g) (ncols g) g)))
   \<and> (\<forall>k. smooth_steps s it = Inr k \<and> k < 0 \<longrightarrow> smooth_grid_bounded g s it = Inr g)
   \<and> (1 < s \<and> 0 \<le> it \<longrightarrow>
        (\<forall>k. smooth_steps s it = Inr k \<longrightarrow> k \<le> 0 \<and> smooth_grid_bounded g s it = Inr g))
   \<and> (1 < s \<and> s \<le> 2 ^ 1000 \<and> 0 \<le> it \<and> it \<le> 2 ^ 20 \<longrightarrow>
        smooth_grid_bounded g s it = Inr g)"
proof -
  note pow = smooth_grid_bounded_funpow
  have stiff: "smooth_steps 1 it = Inr 0 \<and> smooth_grid_bounded g 1 it = Inr g"
    if "\<bar>it\<bar> < 2 ^ 53"
    using smooth_steps_stiff [OF that] by (simp add: pow)
  have thrice: "smooth_grid_bounded g 0 3
       = Inr (smooth_pass (nrows g) (ncols g)
               (smooth_pass (nrows g) (ncols g) (smooth_pass (nrows g) (ncols g) g)))"
    by (simp add: pow steps_soft numeral_3_eq_3)
  have nonpos: "smooth_grid_bounded g s it = Inr g" if "smooth_steps s it = Inr k" "k \<le> 0" for k
    using that by (simp add: pow)
  have over: "k \<le> 0 \<and> smooth_grid_bounded g s it = Inr g"
    if "1 < s" "0 \<le> it" "smooth_steps s it = Inr k" for k
    using smooth_steps_overstiff [OF that] nonpos [OF that(3)] by simp
  have ret: "smooth_grid_bounded g s it = Inr g"
    if "1 < s" "s \<le> 2 ^ 1000" "0 \<le> it" "it \<le> 2 ^ 20"
  proof -
    have "\<bar>s\<bar> \<le> 2 ^ 1000" "\<bar>it\<bar> \<le> 2 ^ 20"
      using that by simp_all
    then obtain k where "smooth_steps s it = Inr k"
      using smooth_steps_returns by blast
    then show ?thesis
      using over that by blast
  qed
  show ?thesis
    using pow [of g s it] stiff steps_soft thrice nonpos over ret by (simp add: order_less_imp_le)
qed

theorem smooth_pass_count_witness:
  "(1::real) < 2 \<and> (2::real) \<le> 2 ^ 1000 \<and> (0::int) \<le> 3 \<and> (3::int) \<le> 2 ^ 20
   \<and> \<bar>3::int\<bar> < 2 ^ 53
   \<and> smooth_steps 2 3 = Inr (- 3)
   \<and> smooth_grid_bounded \<lparr>nrows = 1, ncols = 2, cells = [[1, 4]]\<rparr> 2 3
       = Inr \<lparr>nrows = 1, ncols = 2, cells = [[1, 4]]\<rparr>
   \<and> smooth_grid_bounded \<lparr>nrows = 1, ncols = 2, cells = [[1, 4]]\<rparr> 1 3
       = Inr \<lparr>nrows = 1, ncols = 2, cells = [[1, 4]]\<rparr>"
proof -
  define g where "g = \<lparr>nrows = 1, ncols = 2, cells = [[1, 4 :: real]]\<rparr>"
  have "to_float64 (1 - 2) = Finite (- 1)"
    using to_float64_int [of "- 1"] by simp
  moreover have "py_float 3 = Inr (Finite 3)"
    using py_float_int [of 3] by simp
  moreover have "to_float64 (- 1 * 3) = Finite (- 3)"
    using to_float64_int [of "- 3"] by simp
  ultimately have "smooth_steps 2 3 = py_int (Finite (- 3))"
    by (rule smooth_steps_eval)
  then have steps: "smooth_steps 2 3 = Inr (- 3)"
    by (simp add: py_int_Finite truncate_real_def)
  have p1: "(1::real) < 2" and p2: "(2::real) \<le> 2 ^ 1000" and p3: "(0::int) \<le> 3"
    and p4: "(3::int) \<le> 2 ^ 20" and p5: "\<bar>3::int\<bar> < 2 ^ 53"
    by simp_all
  have over: "1 < (2::real) \<and> (2::real) \<le> 2 ^ 1000 \<and> 0 \<le> (3::int) \<and> (3::int) \<le> 2 ^ 20 \<longrightarrow>
        smooth_grid_bounded g 2 3 = Inr g"
    using smooth_pass_count [of g 2 3] by blast
  have stiff: "\<bar>3::int\<bar> < 2 ^ 53 \<longrightarrow> smooth_steps 1 3 = Inr 0 \<and> smooth_grid_bounded g 1 3 = Inr g"
    using smooth_pass_count [of g 1 3] by blast
  have a: "smooth_grid_bounded g 2 3 = Inr g"
    using over p1 p2 p3 p4 by blast
  have b: "smooth_grid_bounded g 1 3 = Inr g"
    using stiff p5 by blast
  show ?thesis
    using p1 p2 p3 p4 p5 steps a b unfolding g_def by blast
qed

text \<open>
  The claim as it was written fails in two ways. For \<open>stiffness_factor = 2 ^ 1023\<close>,
  a double above 1, the float product overflows and \<^verbatim>\<open>int()\<close> raises
  \<^verbatim>\<open>OverflowError\<close>: a fault, not zero passes. For
  \<open>stiffness_factor = 0.33333333333333337\<close> the float product rounds to \<open>2.0\<close>, so
  two passes run, and the floor of the exact product is 1.
\<close>

theorem smooth_pass_count_counterexample:
  "(1::real) < 2 ^ 1023
   \<and> smooth_grid_bounded \<lparr>nrows = 1, ncols = 2, cells = [[1, 4]]\<rparr> (2 ^ 1023) 3
       = Inl (OverflowError ''int'')
   \<and> smooth_steps (3002399751580331 / 2 ^ 53) 3 = Inr 2
   \<and> \<lfloor>(1 - 3002399751580331 / 2 ^ 53) * real_of_int 3\<rfloor> = 1"
  using steps_overflow steps_knife floor_knife
  by (simp add: smooth_grid_bounded_funpow)

text \<open>
  Claim C10, as the code has it. For a negative \<open>stiffness_factor\<close> and a budget
  between 1 and \<open>2 ^ 53\<close> the smoother, when it returns, has run
  \<^verbatim>\<open>int((1.0 - stiffness_factor) * iterations)\<close> passes, which is at least the
  budget: 6 passes for \<open>stiffness_factor = -1\<close> and the default budget of 3, and 3
  passes for \<open>stiffness_factor = -0.1\<close>. It returns for every \<open>stiffness_factor\<close> of
  magnitude up to \<open>2 ^ 1000\<close> and every budget up to \<open>2 ^ 20\<close>. For
  \<open>stiffness_factor \<ge> 0\<close> the number of passes is at most the budget.
\<close>

theorem negative_stiffness_passes:
  "(s < 0 \<and> 0 < it \<and> it < 2 ^ 53 \<longrightarrow>
      (\<forall>k. smooth_steps s it = Inr k \<longrightarrow>
         it \<le> k
         \<and> smooth_grid_bounded g s it = Inr ((smooth_pass (nrows g) (ncols g) ^^ nat k) g)))
   \<and> (\<bar>s\<bar> \<le> 2 ^ 1000 \<and> \<bar>it\<bar> \<le> 2 ^ 20 \<longrightarrow> (\<exists>k. smooth_steps s it = Inr k))
   \<and> smooth_steps (- 1) 3 = Inr 6
   \<and> smooth_steps (- (3602879701896397 / 2 ^ 55)) 3 = Inr 3
   \<and> (0 \<le> s \<and> 0 \<le> it \<and> it < 2 ^ 53 \<longrightarrow>
        (\<forall>k. smooth_steps s it = Inr k \<longrightarrow> k \<le> it))"
proof -
  have neg: "it \<le> k
         \<and> smooth_grid_bounded g s it = Inr ((smooth_pass (nrows g) (ncols g) ^^ nat k) g)"
    if "s < 0" "0 < it" "it < 2 ^ 53" "smooth_steps s it = Inr k" for k
    using smooth_steps_negative_stiffness [OF that] that(4)
    by (simp add: smooth_grid_bounded_funpow)
  have ret: "\<exists>k. smooth_steps s it = Inr k" if "\<bar>s\<bar> \<le> 2 ^ 1000" "\<bar>it\<bar> \<le> 2 ^ 20"
    using that by (rule smooth_steps_returns)
  have bound: "k \<le> it" if "0 \<le> s" "0 \<le> it" "it < 2 ^ 53" "smooth_steps s it = Inr k" for k
    using that by (rule smooth_steps_within_budget)
  show ?thesis
    using neg ret steps_minus_one steps_tenth bound by blast
qed

theorem negative_stiffness_passes_witness:
  "(- 1 :: real) < 0 \<and> (0::int) < 3 \<and> (3::int) < 2 ^ 53
   \<and> \<bar>- 1 :: real\<bar> \<le> 2 ^ 1000 \<and> \<bar>3::int\<bar> \<le> 2 ^ 20
   \<and> smooth_steps (- 1) 3 = Inr 6 \<and> (3::int) \<le> 6
   \<and> smooth_grid_bounded \<lparr>nrows = 1, ncols = 1, cells = [[7]]\<rparr> (- 1) 3
       = Inr ((smooth_pass 1 1 ^^ 6) \<lparr>nrows = 1, ncols = 1, cells = [[7]]\<rparr>)
   \<and> (0::real) \<le> 0 \<and> smooth_steps 0 3 = Inr 3 \<and> (3::int) \<le> 3"
  using negative_stiffness_passes [of "- 1" 3 "\<lparr>nrows = 1, ncols = 1, cells = [[7]]\<rparr>"]
    negative_stiffness_passes [of 0 3 "\<lparr>nrows = 1, ncols = 1, cells = [[7]]\<rparr>"]
    steps_soft
  by simp

text \<open>
  The claim as it was written fails at \<open>stiffness_factor = -0.1\<close> with the default
  budget: the float product is \<open>3.3000000000000003\<close>, so the smoother runs 3 passes,
  which does not exceed the budget of 3.
\<close>

theorem negative_stiffness_counterexample:
  "(- (3602879701896397 / 2 ^ 55) :: real) < 0
   \<and> smooth_steps (- (3602879701896397 / 2 ^ 55)) 3 = Inr 3
   \<and> smooth_grid_bounded \<lparr>nrows = 1, ncols = 1, cells = [[7]]\<rparr>
         (- (3602879701896397 / 2 ^ 55)) 3
       = Inr ((smooth_pass 1 1 ^^ 3) \<lparr>nrows = 1, ncols = 1, cells = [[7]]\<rparr>)
   \<and> \<not> (3::nat) < 3"
  using steps_tenth by (simp add: smooth_grid_bounded_funpow)

section \<open>The end-to-end example\<close>

lemma int_of_product_eval:
  assumes "c = Finite d" "py_float n = Inr (Finite r)" "to_float64 (d * r) = p"
  shows "int_of_product c n = py_int p"
  using assms by (simp add: int_of_product_def)

lemma round_035: "float64_round 0.35 = 3152519739159347 / 2 ^ 53"
  using float64_round_normal [of "- 2" "0.35"]
  by (simp add: round_half_even_def)

lemma round_065: "float64_round 0.65 = 5854679515581645 / 2 ^ 53"
  using float64_round_normal [of "- 1" "0.65"]
  by (simp add: round_half_even_def)

lemma literal_035: "to_float64 0.35 = Finite (3152519739159347 / 2 ^ 53)"
  by (rule to_float64_eq) (simp add: float64_overflow_def, rule round_035)

lemma literal_065: "to_float64 0.65 = Finite (5854679515581645 / 2 ^ 53)"
  by (rule to_float64_eq) (simp add: float64_overflow_def, rule round_065)

lemma round_035_10: "float64_round (3152519739159347 / 2 ^ 53 * 10) = 7 / 2"
  using float64_round_normal [of 1 "3152519739159347 / 2 ^ 53 * 10"]
  by (simp add: round_half_even_def)

lemma round_065_10: "float64_round (5854679515581645 / 2 ^ 53 * 10) = 13 / 2"
  using float64_round_normal [of 2 "5854679515581645 / 2 ^ 53 * 10"]
  by (simp add: round_half_even_def)

lemma mid_start_10: "int_of_product (to_float64 0.35) 10 = Inr 3"
proof -
  have "py_float 10 = Inr (Finite 10)"
    using py_float_int [of 10] by simp
  moreover have "to_float64 (3152519739159347 / 2 ^ 53 * 10) = Finite (7 / 2)"
    by (rule to_float64_eq) (simp add: float64_overflow_def, rule round_035_10)
  ultimately have "int_of_product (to_float64 0.35) 10 = py_int (Finite (7 / 2))"
    using literal_035 by (rule_tac int_of_product_eval)
  then show ?thesis
    by (simp add: py_int_Finite truncate_real_def)
qed

lemma mid_end_10: "int_of_product (to_float64 0.65) 10 = Inr 6"
proof -
  have "py_float 10 = Inr (Finite 10)"
    using py_float_int [of 10] by simp
  moreover have "to_float64 (5854679515581645 / 2 ^ 53 * 10) = Finite (13 / 2)"
    by (rule to_float64_eq) (simp add: float64_overflow_def, rule round_065_10)
  ultimately have "int_of_product (to_float64 0.65) 10 = py_int (Finite (13 / 2))"
    using literal_065 by (rule_tac int_of_product_eval)
  then show ?thesis
    by (simp add: py_int_Finite truncate_real_def)
qed

lemma base_profile_10:
  "base_longitudinal_profile 10 =
     Inr [1.2, 1.2 - 1/9, 1.2 - 2/9, 1.2 - 3/9, 1.2 - 4/9,
          1.2 - 5/9, 1.2 - 6/9, 1.2 - 7/9, 1.2 - 8/9, 0.2]"
  by (simp add: base_longitudinal_profile_def np_linspace_def Let_def upt_rec)

lemma arch_bias_10:
  "apply_arch_bias 10
     [1.2, 1.2 - 1/9, 1.2 - 2/9, 1.2 - 3/9, 1.2 - 4/9,
      1.2 - 5/9, 1.2 - 6/9, 1.2 - 7/9, 1.2 - 8/9, 0.2] 0.1
   = Inr [1.2, 1.2 - 1/9, 1.2 - 2/9, 1.2 - 3/9 + 0.1, 1.2 - 4/9 + 0.1,
      1.2 - 5/9 + 0.1, 1.2 - 6/9, 1.2 - 7/9, 1.2 - 8/9, 0.2]"
  unfolding apply_arch_bias_def mid_start_10 mid_end_10
  by (simp add: slice_iadd_def slice_bound_def Let_def upt_rec)

lemma smooth_stiff_identity: "smooth_grid_bounded g 1 3 = Inr g"
  by (simp add: smooth_grid_bounded_funpow steps_stiff)

lemma example_stages_1_to_4:
  "generate_pressure_field 10 4 example_params =
     (case base_longitudinal_profile 10 of
        Inl e \<Rightarrow> Inl e
      | Inr profile \<Rightarrow>
          (case apply_arch_bias 10 profile 0.1 of
             Inl e \<Rightarrow> Inl e
           | Inr biased \<Rightarrow>
               (case expand_to_grid 4 biased of
                  Inl e \<Rightarrow> Inl e
                | Inr g \<Rightarrow> Inr (apply_contact_capacity g 0.8))))"
  by (simp add: generate_pressure_field_def example_params_def getitem_def
      smooth_stiff_identity steps_stiff split: sum.splits option.splits)

lemma r4: "replicate 4 x = [x, x, x, x]"
  by (simp add: numeral_eq_Suc)

lemma np_power_small:
  "0 < x \<Longrightarrow> x \<le> 2 \<Longrightarrow> np_power x 0.7 = Some (x powr 0.7)"
proof -
  assume x: "0 < x" "x \<le> 2"
  have "x powr 0.7 \<le> 2 powr 0.7"
    using x by (intro powr_mono2) simp_all
  also have "\<dots> \<le> 2 powr 1"
    by (intro powr_mono) simp_all
  also have "\<dots> < float64_overflow"
    by (simp add: float64_overflow_def)
  finally show ?thesis
    using x by (simp add: np_power_def)
qed

lemma example_grid:
  "generate_pressure_field 10 4 example_params =
     Inr (Some \<lparr>nrows = 10, ncols = 4,
                cells = map (\<lambda>v. [v powr 0.7, v powr 0.7, v powr 0.7, v powr 0.7])
                  [1.2, 1.2 - 1/9, 1.2 - 2/9, 1.2 - 3/9 + 0.1, 1.2 - 4/9 + 0.1,
                   1.2 - 5/9 + 0.1, 1.2 - 6/9, 1.2 - 7/9, 1.2 - 8/9, 0.2]\<rparr>)"
  unfolding example_stages_1_to_4 base_profile_10 sum.case arch_bias_10
  by (simp add: expand_to_grid_def np_tile_column_def apply_contact_capacity_def
      contact_exponent_def np_power_small Let_def r4)

text \<open>
  Claim C1. With 10 rows, 4 columns and the parameters \<open>arch_bias = 0.1\<close>,
  \<open>contact_capacity = 0.8\<close>, \<open>stiffness_factor = 1.0\<close>, the pipeline returns exactly
  what stages 1 to 4 compute (base profile, arch bias, expansion, capacity shaping),
  no smoothing pass being run, and the four cells of row 0 all equal \<open>1.2\<close> to the
  power \<open>0.7\<close>.
\<close>

theorem end_to_end_example:
  "generate_pressure_field 10 4 example_params =
     (case base_longitudinal_profile 10 of
        Inl e \<Rightarrow> Inl e
      | Inr profile \<Rightarrow>
          (case apply_arch_bias 10 profile 0.1 of
             Inl e \<Rightarrow> Inl e
           | Inr biased \<Rightarrow>
               (case expand_to_grid 4 biased of
                  Inl e \<Rightarrow> Inl e
                | Inr g \<Rightarrow> Inr (apply_contact_capacity g 0.8))))
   \<and> smooth_steps 1.0 3 = Inr 0
   \<and> length (py_range 0) = 0
   \<and> (\<exists>g. generate_pressure_field 10 4 example_params = Inr (Some g)
          \<and> nrows g = 10 \<and> ncols g = 4 \<and> rectangular g
          \<and> cells g ! 0 = [1.2 powr 0.7, 1.2 powr 0.7, 1.2 powr 0.7, 1.2 powr 0.7])"
proof -
  have "smooth_steps 1.0 3 = Inr 0"
    using steps_stiff by simp
  moreover have "length (py_range 0) = 0"
    by (simp add: length_py_range)
  moreover have "\<exists>g. generate_pressure_field 10 4 example_params = Inr (Some g)
          \<and> nrows g = 10 \<and> ncols g = 4 \<and> rectangular g
          \<and> cells g ! 0 = [1.2 powr 0.7, 1.2 powr 0.7, 1.2 powr 0.7, 1.2 powr 0.7]"
    unfolding example_grid by (simp add: rectangular_def)
  ultimately show ?thesis
    using example_stages_1_to_4 by blast
qed

section \<open>Stage 1: the base profile is linear\<close>

lemma base_profile_explicit:
  assumes "1 < rows"
  shows "base_longitudinal_profile rows
           = Inr (map (\<lambda>i. 1.2 - real i / real_of_int (rows - 1)) [0..<nat rows])"
  using assms by (simp add: base_longitudinal_profile_def np_linspace_def Let_def)

lemma base_profile_single: "base_longitudinal_profile 1 = Inr [1.2]"
  by (simp add: base_longitudinal_profile_def np_linspace_def Let_def)

text \<open>
  Claim C5. For more than one row the base profile has \<open>rows\<close> entries, entry \<open>i\<close> is
  \<open>1.2 - i / (rows - 1)\<close>, the entries strictly decrease, the first is \<open>1.2\<close> and
  the last is \<open>0.2\<close>; for a single row the profile is the single value \<open>1.2\<close>.
\<close>

theorem base_profile_linear:
  "(1 < rows \<longrightarrow>
      (\<exists>p. base_longitudinal_profile rows = Inr p
         \<and> int (length p) = rows
         \<and> (\<forall>i < length p. p ! i = 1.2 - real i / real_of_int (rows - 1))
         \<and> (\<forall>i j. i < j \<and> j < length p \<longrightarrow> p ! j < p ! i)
         \<and> p ! 0 = 1.2
         \<and> p ! (nat rows - 1) = 0.2))
   \<and> base_longitudinal_profile 1 = Inr [1.2]"
proof -
  have main: "\<exists>p. base_longitudinal_profile rows = Inr p
         \<and> int (length p) = rows
         \<and> (\<forall>i < length p. p ! i = 1.2 - real i / real_of_int (rows - 1))
         \<and> (\<forall>i j. i < j \<and> j < length p \<longrightarrow> p ! j < p ! i)
         \<and> p ! 0 = 1.2
         \<and> p ! (nat rows - 1) = 0.2" if r: "1 < rows"
  proof -
    define p where "p = map (\<lambda>i. 1.2 - real i / real_of_int (rows - 1)) [0..<nat rows]"
    have len: "length p = nat rows"
      by (simp add: p_def)
    have nth: "p ! i = 1.2 - real i / real_of_int (rows - 1)" if "i < length p" for i
      using that by (simp add: p_def)
    have pos: "0 < real_of_int (rows - 1)"
      using r by simp
    have dec: "p ! j < p ! i" if "i < j" "j < length p" for i j
    proof -
      have "real i / real_of_int (rows - 1) < real j / real_of_int (rows - 1)"
        using that pos by (simp add: divide_strict_right_mono)
      then show ?thesis
        using that by (simp add: nth)
    qed
    have first: "p ! 0 = 1.2"
      using r by (simp add: nth len)
    have "real (nat rows - 1) = real_of_int (rows - 1)"
      using r by (simp add: of_nat_diff)
    then have last: "p ! (nat rows - 1) = 0.2"
      using r pos by (simp add: nth len)
    show ?thesis
      using base_profile_explicit [OF r] len nth dec first last r
      unfolding p_def [symmetric] by auto
  qed
  show ?thesis
    using main base_profile_single by blast
qed

theorem base_profile_linear_witness:
  "(1::int) < 3 \<and> base_longitudinal_profile 3 = Inr [1.2, 0.7, 0.2]
    \<and> (\<exists>p. base_longitudinal_profile 3 = Inr p \<and> p ! 1 < p ! 0 \<and> p ! 2 < p ! 1)"
  using base_profile_linear [of 3]
  by (simp add: base_longitudinal_profile_def np_linspace_def Let_def upt_rec)

section \<open>Stage 2: the arch bias is local\<close>

lemma slice_bound_nonneg: "0 \<le> k \<Longrightarrow> slice_bound n k = min (nat k) n"
  by (simp add: slice_bound_def)

lemma length_slice_iadd: "length (slice_iadd a lo hi v) = length a"
  by (simp add: slice_iadd_def Let_def)

lemma nth_slice_iadd:
  "i < length a \<Longrightarrow>
   slice_iadd a lo hi v ! i =
     (if slice_bound (length a) lo \<le> i \<and> i < slice_bound (length a) hi
      then a ! i + v else a ! i)"
  by (simp add: slice_iadd_def Let_def)

lemma nth_slice_iadd_nonneg:
  assumes "0 \<le> lo" "0 \<le> hi" "i < length a"
  shows "slice_iadd a lo hi v ! i = (if lo \<le> int i \<and> int i < hi then a ! i + v else a ! i)"
proof -
  have "slice_bound (length a) lo \<le> i \<longleftrightarrow> lo \<le> int i"
    using assms by (auto simp: slice_bound_nonneg)
  moreover have "i < slice_bound (length a) hi \<longleftrightarrow> int i < hi"
    using assms by (auto simp: slice_bound_nonneg)
  ultimately show ?thesis
    using assms(3) by (simp add: nth_slice_iadd)
qed

lemma slice_iadd_empty:
  assumes "0 \<le> lo" "0 \<le> hi" "hi \<le> lo"
  shows "slice_iadd a lo hi v = a"
proof (rule nth_equalityI)
  show "length (slice_iadd a lo hi v) = length a"
    by (rule length_slice_iadd)
  fix i assume "i < length (slice_iadd a lo hi v)"
  then have "i < length a"
    by (simp add: length_slice_iadd)
  then show "slice_iadd a lo hi v ! i = a ! i"
    using assms by (simp add: nth_slice_iadd_nonneg)
qed

lemma truncate_real_nonneg: "0 \<le> r \<Longrightarrow> 0 \<le> truncate_real r"
  by (simp add: truncate_real_def)

text \<open>A fraction of a row count that fits a float is a non-negative index.\<close>

lemma int_of_product_fraction:
  assumes d: "0 \<le> d" "d \<le> 1" and n: "0 \<le> n" "n \<le> 2 ^ 1023"
  obtains k where "int_of_product (Finite d) n = Inr k" "0 \<le> k"
proof -
  have nr: "\<bar>real_of_int n\<bar> \<le> 2 powi 1023"
  proof -
    have "real_of_int n \<le> real_of_int (2 ^ 1023)"
      using n(2) by (simp only: of_int_le_iff)
    then show ?thesis using n(1) by simp
  qed
  then have r: "\<bar>float64_round (real_of_int n)\<bar> \<le> 2 powi 1023"
    by (rule float64_round_abs_le) simp
  have r0: "0 \<le> float64_round (real_of_int n)"
    using n(1) by (intro float64_round_nonneg) simp
  have "d * float64_round (real_of_int n) \<le> 1 * float64_round (real_of_int n)"
    using d(2) r0 by (rule mult_right_mono)
  then have "\<bar>d * float64_round (real_of_int n)\<bar> \<le> 2 powi 1023"
    using d(1) r r0 by (simp add: abs_mult)
  then have prod: "\<bar>d * float64_round (real_of_int n)\<bar> < float64_overflow"
    using float64_overflow_gt by linarith
  have "\<bar>real_of_int n\<bar> < float64_overflow"
    using nr float64_overflow_gt by linarith
  then have "int_of_product (Finite d) n
               = Inr (truncate_real (float64_round (d * float64_round (real_of_int n))))"
    using prod by (rule int_of_product_finite)
  moreover have "0 \<le> truncate_real (float64_round (d * float64_round (real_of_int n)))"
  proof -
    have "0 \<le> d * float64_round (real_of_int n)"
      using d(1) r0 by (rule mult_nonneg_nonneg)
    then have "0 \<le> float64_round (d * float64_round (real_of_int n))"
      by (rule float64_round_nonneg)
    then show ?thesis
      by (rule truncate_real_nonneg)
  qed
  ultimately show ?thesis
    by (rule that)
qed

text \<open>
  Claim C6, as the code has it. On a profile of length \<open>rows\<close> (at most \<open>2 ^ 1023\<close>,
  so that it converts to a float) the arch-bias stage keeps the length, adds
  \<open>arch_bias\<close> to exactly the entries whose index lies in \<open>[mid_start, mid_end)\<close> and
  leaves every other entry as it was; when the window is empty the profile is
  unchanged. The bounds are \<^verbatim>\<open>int(0.35 * rows)\<close> and \<^verbatim>\<open>int(0.65 * rows)\<close> as
  float64 computes them, and they are not negative.
\<close>

theorem arch_bias_window:
  assumes "int (length profile) = rows" and "rows \<le> 2 ^ 1023"
  shows "\<exists>mid_start mid_end biased.
           int_of_product (to_float64 0.35) rows = Inr mid_start
         \<and> int_of_product (to_float64 0.65) rows = Inr mid_end
         \<and> 0 \<le> mid_start \<and> 0 \<le> mid_end
         \<and> apply_arch_bias rows profile b = Inr biased
         \<and> length biased = length profile
         \<and> (\<forall>i < length profile.
               biased ! i =
                 (if mid_start \<le> int i \<and> int i < mid_end then profile ! i + b
                  else profile ! i))
         \<and> (mid_end \<le> mid_start \<longrightarrow> biased = profile)"
proof -
  have r: "0 \<le> rows"
    using assms(1) by auto
  obtain ms where ms: "int_of_product (to_float64 0.35) rows = Inr ms" "0 \<le> ms"
    unfolding literal_035 using r assms(2)
    by (rule_tac int_of_product_fraction [of "3152519739159347 / 2 ^ 53" rows]) simp_all
  obtain me where me: "int_of_product (to_float64 0.65) rows = Inr me" "0 \<le> me"
    unfolding literal_065 using r assms(2)
    by (rule_tac int_of_product_fraction [of "5854679515581645 / 2 ^ 53" rows]) simp_all
  have a: "apply_arch_bias rows profile b = Inr (slice_iadd profile ms me b)"
    unfolding apply_arch_bias_def ms(1) me(1) by simp
  have "\<forall>i < length profile.
          slice_iadd profile ms me b ! i =
            (if ms \<le> int i \<and> int i < me then profile ! i + b else profile ! i)"
    using ms(2) me(2) by (simp add: nth_slice_iadd_nonneg)
  moreover have "me \<le> ms \<longrightarrow> slice_iadd profile ms me b = profile"
    using ms(2) me(2) by (simp add: slice_iadd_empty)
  ultimately show ?thesis
    using ms me a length_slice_iadd [of profile ms me b] by blast
qed

lemma round_035_180: "float64_round (3152519739159347 / 2 ^ 53 * 180) = 8866461766385663 / 2 ^ 47"
  using float64_round_normal [of 5 "3152519739159347 / 2 ^ 53 * 180"]
  by (simp add: round_half_even_def)

lemma round_065_180: "float64_round (5854679515581645 / 2 ^ 53 * 180) = 117"
  using float64_round_normal [of 6 "5854679515581645 / 2 ^ 53 * 180"]
  by (simp add: round_half_even_def)

lemma mid_start_180: "int_of_product (to_float64 0.35) 180 = Inr 62"
proof -
  have "py_float 180 = Inr (Finite 180)"
    using py_float_int [of 180] by simp
  moreover have "to_float64 (3152519739159347 / 2 ^ 53 * 180) = Finite (8866461766385663 / 2 ^ 47)"
    by (rule to_float64_eq) (simp add: float64_overflow_def, rule round_035_180)
  ultimately have "int_of_product (to_float64 0.35) 180 = py_int (Finite (8866461766385663 / 2 ^ 47))"
    using literal_035 by (rule_tac int_of_product_eval)
  then show ?thesis
    by (simp add: py_int_Finite truncate_real_def)
qed

lemma mid_end_180: "int_of_product (to_float64 0.65) 180 = Inr 117"
proof -
  have "py_float 180 = Inr (Finite 180)"
    using py_float_int [of 180] by simp
  moreover have "to_float64 (5854679515581645 / 2 ^ 53 * 180) = Finite 117"
    by (rule to_float64_eq) (simp add: float64_overflow_def, rule round_065_180)
  ultimately have "int_of_product (to_float64 0.65) 180 = py_int (Finite 117)"
    using literal_065 by (rule_tac int_of_product_eval)
  then show ?thesis
    by (simp add: py_int_Finite truncate_real_def)
qed

theorem arch_bias_window_witness:
  "int (length [1, 2, 3, 4, 5, 6, 7, 8, 9, 10 :: real]) = 10 \<and> (10::int) \<le> 2 ^ 1023
   \<and> int_of_product (to_float64 0.35) 10 = Inr 3
   \<and> int_of_product (to_float64 0.65) 10 = Inr 6
   \<and> apply_arch_bias 10 [1, 2, 3, 4, 5, 6, 7, 8, 9, 10] 100
       = Inr [1, 2, 3, 104, 105, 106, 7, 8, 9, 10]"
proof -
  have len: "int (length [1, 2, 3, 4, 5, 6, 7, 8, 9, 10 :: real]) = 10" and le: "(10::int) \<le> 2 ^ 1023"
    by simp_all
  have e: "apply_arch_bias 10 [1, 2, 3, 4, 5, 6, 7, 8, 9, 10] 100
             = Inr [1, 2, 3, 104, 105, 106, 7, 8, 9, 10]"
    unfolding apply_arch_bias_def mid_start_10 mid_end_10
    by (simp add: slice_iadd_def slice_bound_def Let_def upt_rec)
  from arch_bias_window [OF len le, of 100]
  obtain biased where "apply_arch_bias 10 [1, 2, 3, 4, 5, 6, 7, 8, 9, 10] 100 = Inr biased"
    and "length biased = length [1, 2, 3, 4, 5, 6, 7, 8, 9, 10 :: real]"
    by blast
  then show ?thesis
    using len le e mid_start_10 mid_end_10 by blast
qed

lemma replicate_slice_62:
  "slice_iadd (replicate 180 0) 62 117 1 ! 62 = 1"
  by (simp add: nth_slice_iadd_nonneg)

text \<open>
  The claim as it was written, with the bounds \<open>floor (0.35 * rows)\<close> and
  \<open>floor (0.65 * rows)\<close> of exact arithmetic, fails at 180 rows: the float product
  \<^verbatim>\<open>0.35 * 180\<close> is \<open>62.99999999999999\<close>, so the window starts at 62, and entry 62,
  which lies outside \<open>[63, 117)\<close>, is changed.
\<close>

theorem arch_bias_window_counterexample:
  "int (length (replicate 180 (0::real))) = 180
   \<and> \<lfloor>0.35 * real_of_int 180\<rfloor> = 63
   \<and> \<lfloor>0.65 * real_of_int 180\<rfloor> = 117
   \<and> int_of_product (to_float64 0.35) 180 = Inr 62
   \<and> apply_arch_bias 180 (replicate 180 0) 1 = Inr (slice_iadd (replicate 180 0) 62 117 1)
   \<and> slice_iadd (replicate 180 0) 62 117 1 ! 62 = 1
   \<and> replicate 180 (0::real) ! 62 = 0"
proof -
  have "apply_arch_bias 180 (replicate 180 0) 1 = Inr (slice_iadd (replicate 180 0) 62 117 1)"
    unfolding apply_arch_bias_def mid_start_180 mid_end_180 by simp
  moreover have "\<lfloor>0.35 * real_of_int 180\<rfloor> = 63" "\<lfloor>0.65 * real_of_int 180\<rfloor> = 117"
    by simp_all
  moreover have "int (length (replicate 180 (0::real))) = 180" "replicate 180 (0::real) ! 62 = 0"
    by simp_all
  ultimately show ?thesis
    using mid_start_180 replicate_slice_62 by blast
qed

section \<open>Stage 4: capacity shaping\<close>

lemma those_map_Some:
  "(\<And>x. x \<in> set xs \<Longrightarrow> f x = Some (h x)) \<Longrightarrow> those (map f xs) = Some (map h xs)"
  by (induction xs) simp_all

lemma those_Some_nth:
  "those xs = Some ys \<Longrightarrow> length ys = length xs \<and> (\<forall>i < length xs. xs ! i = Some (ys ! i))"
proof (induction xs arbitrary: ys)
  case Nil
  then show ?case by simp
next
  case (Cons x xs)
  then obtain y ys' where x: "x = Some y" and t: "those xs = Some ys'" and ys: "ys = y # ys'"
    by (auto split: option.splits)
  from Cons.IH [OF t] show ?case
    by (auto simp: x ys nth_Cons split: nat.splits)
qed

lemma contact_exponent_pos: "0 < contact_exponent c"
  by (simp add: contact_exponent_def max_def)

lemma contact_exponent_half: "contact_exponent c = 0.5 \<longleftrightarrow> 1 \<le> c"
  by (auto simp: contact_exponent_def max_def)

lemma np_power_nonneg:
  "0 \<le> x \<Longrightarrow> 0 < y \<Longrightarrow> x powr y < float64_overflow \<Longrightarrow> np_power x y = Some (x powr y)"
  by (simp add: np_power_def)

lemma np_power_nonneg_Some:
  assumes "0 \<le> x" "0 < y" "np_power x y = Some v"
  shows "v = x powr y" "x powr y < float64_overflow"
  using assms by (auto simp: np_power_def float64_overflow_def split: if_splits)

lemma apply_contact_capacity_nonneg:
  assumes "\<forall>row \<in> set (cells g). \<forall>x \<in> set row.
             0 \<le> x \<and> x powr contact_exponent c < float64_overflow"
  shows "apply_contact_capacity g c =
           Some (g\<lparr>cells := map (map (\<lambda>x. x powr contact_exponent c)) (cells g)\<rparr>)"
proof -
  have row: "those (map (\<lambda>x. np_power x (contact_exponent c)) row)
               = Some (map (\<lambda>x. x powr contact_exponent c) row)"
    if "row \<in> set (cells g)" for row
  proof (rule those_map_Some)
    fix x assume "x \<in> set row"
    with assms that have "0 \<le> x" "x powr contact_exponent c < float64_overflow"
      by blast+
    then show "np_power x (contact_exponent c) = Some (x powr contact_exponent c)"
      by (simp add: np_power_nonneg contact_exponent_pos)
  qed
  have "those (map (\<lambda>row. those (map (\<lambda>x. np_power x (contact_exponent c)) row)) (cells g))
          = Some (map (map (\<lambda>x. x powr contact_exponent c)) (cells g))"
    by (rule those_map_Some) (rule row)
  then show ?thesis
    by (simp add: apply_contact_capacity_def Let_def)
qed

lemma apply_contact_capacity_cells:
  assumes "apply_contact_capacity g c = Some g'"
  shows "nrows g' = nrows g \<and> ncols g' = ncols g \<and> length (cells g') = length (cells g)
    \<and> (\<forall>i < length (cells g). length (cells g' ! i) = length (cells g ! i)
          \<and> (\<forall>j < length (cells g ! i).
                np_power (cells g ! i ! j) (contact_exponent c) = Some (cells g' ! i ! j)))"
proof -
  from assms obtain cs where
    cs: "those (map (\<lambda>row. those (map (\<lambda>x. np_power x (contact_exponent c)) row)) (cells g)) = Some cs"
    and g': "g' = g\<lparr>cells := cs\<rparr>"
    by (auto simp: apply_contact_capacity_def Let_def)
  from those_Some_nth [OF cs]
  have len: "length cs = length (cells g)"
    and rows: "\<And>i. i < length (cells g) \<Longrightarrow>
                 those (map (\<lambda>x. np_power x (contact_exponent c)) (cells g ! i)) = Some (cs ! i)"
    by auto
  have "length (cs ! i) = length (cells g ! i)
          \<and> (\<forall>j < length (cells g ! i).
                np_power (cells g ! i ! j) (contact_exponent c) = Some (cs ! i ! j))"
    if "i < length (cells g)" for i
    using those_Some_nth [OF rows [OF that]] by auto
  then show ?thesis
    by (simp add: g' len)
qed

lemma np_power_monotone:
  assumes "0 \<le> x" "x \<le> y" "np_power y (contact_exponent c) = Some v"
  shows "v = y powr contact_exponent c
    \<and> np_power x (contact_exponent c) = Some (x powr contact_exponent c)
    \<and> x powr contact_exponent c \<le> v"
proof -
  note e = contact_exponent_pos [of c]
  have y: "0 \<le> y" using assms(1,2) by simp
  have v: "v = y powr contact_exponent c" and b: "y powr contact_exponent c < float64_overflow"
    using np_power_nonneg_Some [OF y e assms(3)] by simp_all
  have le: "x powr contact_exponent c \<le> y powr contact_exponent c"
    using assms(1,2) e by (intro powr_mono2) simp_all
  then have "x powr contact_exponent c < float64_overflow"
    using b by linarith
  then have "np_power x (contact_exponent c) = Some (x powr contact_exponent c)"
    using assms(1) e by (rule_tac np_power_nonneg)
  then show ?thesis
    using v le by simp
qed

lemma np_power_overflow_example: "np_power (10 ^ 200) (contact_exponent (- 0.5)) = None"
proof -
  have e: "contact_exponent (- 0.5) = 2"
    by (simp add: contact_exponent_def)
  have "(10 ^ 200 :: real) powr 2 = (10 ^ 200) ^ 2"
    by (rule powr_numeral) simp
  then have "\<not> (10 ^ 200 :: real) powr 2 < float64_overflow"
    by (simp add: float64_overflow_def)
  then show ?thesis
    unfolding e by (simp add: np_power_def)
qed

text \<open>
  Claim C7. The exponent of the capacity shaper is \<open>max 0.5 (1.5 - contact_capacity)\<close>,
  and it is \<open>0.5\<close> exactly when \<open>contact_capacity \<ge> 1\<close>. The shaper keeps the shape
  and replaces every cell by \<^verbatim>\<open>np.power\<close> of the cell and the exponent, which on an
  array of non-negative cells whose powers do not overflow is the real power
  \<open>c powr exponent\<close>. For this exponent the power is monotonic on non-negative
  cells: when the power of a cell is a real number, so is the power of every smaller
  non-negative cell, and it is not greater. A power that overflows, as that of
  \<open>10 ^ 200\<close> for the exponent 2, is inf.
\<close>

theorem capacity_shaping:
  "contact_exponent c = max 0.5 (1.5 - c)
   \<and> (contact_exponent c = 0.5 \<longleftrightarrow> 1.0 \<le> c)
   \<and> (\<forall>g'. apply_contact_capacity g c = Some g' \<longrightarrow>
         nrows g' = nrows g \<and> ncols g' = ncols g \<and> length (cells g') = length (cells g)
         \<and> (\<forall>i < length (cells g). length (cells g' ! i) = length (cells g ! i)
               \<and> (\<forall>j < length (cells g ! i).
                     np_power (cells g ! i ! j) (contact_exponent c) = Some (cells g' ! i ! j))))
   \<and> ((\<forall>row \<in> set (cells g). \<forall>x \<in> set row.
          0 \<le> x \<and> x powr contact_exponent c < float64_overflow) \<longrightarrow>
         apply_contact_capacity g c =
           Some (g\<lparr>cells := map (map (\<lambda>x. x powr contact_exponent c)) (cells g)\<rparr>))
   \<and> (0 \<le> x \<and> x \<le> y \<longrightarrow>
         (\<forall>v. np_power y (contact_exponent c) = Some v \<longrightarrow>
            v = y powr contact_exponent c
            \<and> np_power x (contact_exponent c) = Some (x powr contact_exponent c)
            \<and> x powr contact_exponent c \<le> v))
   \<and> np_power (10 ^ 200) (contact_exponent (- 0.5)) = None"
proof -
  have e: "contact_exponent c = max 0.5 (1.5 - c)"
    by (simp add: contact_exponent_def)
  have h: "contact_exponent c = 0.5 \<longleftrightarrow> 1.0 \<le> c"
    using contact_exponent_half [of c] by simp
  show ?thesis
    using e h apply_contact_capacity_cells [of g c] apply_contact_capacity_nonneg [of g c]
      np_power_monotone [of x y c] np_power_overflow_example
    by blast
qed

theorem capacity_shaping_witness:
  "apply_contact_capacity \<lparr>nrows = 1, ncols = 2, cells = [[0, 4]]\<rparr> 1
     = Some \<lparr>nrows = 1, ncols = 2, cells = [[0, 2]]\<rparr>
   \<and> (0::real) \<le> 1 \<and> (1::real) \<le> 4
   \<and> np_power 4 (contact_exponent 1) = Some 2
   \<and> np_power 1 (contact_exponent 1) = Some 1
   \<and> (1::real) \<le> 2"
proof -
  have four: "(4::real) powr (1/2) = 2"
    using powr_half_sqrt [of "4::real"] real_sqrt_four by simp
  have e: "contact_exponent 1 = 1 / 2"
    by (simp add: contact_exponent_def)
  have p4: "np_power 4 (contact_exponent 1) = Some 2"
    unfolding e using four by (simp add: np_power_def float64_overflow_def)
  have cells: "\<forall>row \<in> set (cells \<lparr>nrows = 1, ncols = 2, cells = [[0, 4 :: real]]\<rparr>). \<forall>x \<in> set row.
          0 \<le> x \<and> x powr contact_exponent 1 < float64_overflow"
    unfolding e using four by (simp add: float64_overflow_def)
  note t = capacity_shaping [of 1 "\<lparr>nrows = 1, ncols = 2, cells = [[0, 4]]\<rparr>" 1 4]
  have a: "apply_contact_capacity \<lparr>nrows = 1, ncols = 2, cells = [[0, 4]]\<rparr> 1
     = Some \<lparr>nrows = 1, ncols = 2, cells = [[0, 2]]\<rparr>"
  proof -
    have "apply_contact_capacity \<lparr>nrows = 1, ncols = 2, cells = [[0, 4]]\<rparr> 1
      = Some (\<lparr>nrows = 1, ncols = 2, cells = [[0, 4]]\<rparr>
               \<lparr>cells := map (map (\<lambda>x. x powr contact_exponent 1))
                          (cells \<lparr>nrows = 1, ncols = 2, cells = [[0, 4]]\<rparr>)\<rparr>)"
      using t cells by blast
    then show ?thesis
      unfolding e using four by simp
  qed
  have m: "np_power 1 (contact_exponent 1) = Some (1 powr contact_exponent 1)"
    using t p4 by simp
  then have "np_power 1 (contact_exponent 1) = Some 1"
    by simp
  then show ?thesis
    using a p4 by simp
qed

section \<open>Stage 5: one pass of the loops\<close>

lemma fold_row_update:
  "k \<le> length r \<Longrightarrow> fold (\<lambda>j r. r[j := f j]) [0..<k] r = map f [0..<k] @ drop k r"
proof (induction k)
  case 0
  then show ?case by simp
next
  case (Suc k)
  then have k: "k < length r" by simp
  have "fold (\<lambda>j r. r[j := f j]) [0..<Suc k] r = (map f [0..<k] @ drop k r)[k := f k]"
    using Suc by simp
  also have "\<dots> = map f [0..<k] @ (drop k r)[0 := f k]"
    by (simp add: list_update_append)
  also have "drop k r = r ! k # drop (Suc k) r"
    using k by (simp add: Cons_nth_drop_Suc)
  finally show ?case by simp
qed

lemma fold_setitem_row:
  "i < length (cells ng) \<Longrightarrow>
   fold (\<lambda>j ng. setitem ng i j (f j)) js ng
     = ng\<lparr>cells := (cells ng)[i := fold (\<lambda>j r. r[j := f j]) js (cells ng ! i)]\<rparr>"
proof (induction js arbitrary: ng)
  case Nil
  then show ?case by simp
next
  case (Cons j js)
  have len: "i < length (cells (setitem ng i j (f j)))"
    using Cons.prems by (simp add: setitem_def)
  show ?case
    using Cons.prems by (simp add: Cons.IH [OF len]) (simp add: setitem_def)
qed

lemma fold_cells_update:
  "fold (\<lambda>i ng. ng\<lparr>cells := G i (cells ng)\<rparr>) is g = g\<lparr>cells := fold G is (cells g)\<rparr>"
  by (induction "is" arbitrary: g) simp_all

lemma fold_rows_update:
  "k \<le> length c \<Longrightarrow>
   fold (\<lambda>i c. c[i := h i (c ! i)]) [0..<k] c = map (\<lambda>i. h i (c ! i)) [0..<k] @ drop k c"
proof (induction k)
  case 0
  then show ?case by simp
next
  case (Suc k)
  then have k: "k < length c" by simp
  have d: "drop k c = c ! k # drop (Suc k) c"
    using k by (simp add: Cons_nth_drop_Suc)
  have "fold (\<lambda>i c. c[i := h i (c ! i)]) [0..<Suc k] c
          = (map (\<lambda>i. h i (c ! i)) [0..<k] @ drop k c)
              [k := h k ((map (\<lambda>i. h i (c ! i)) [0..<k] @ drop k c) ! k)]"
    using Suc by simp
  also have "(map (\<lambda>i. h i (c ! i)) [0..<k] @ drop k c) ! k = c ! k"
    using k by (simp add: nth_append)
  also have "(map (\<lambda>i. h i (c ! i)) [0..<k] @ drop k c)[k := h k (c ! k)]
               = map (\<lambda>i. h i (c ! i)) [0..<k] @ (drop k c)[0 := h k (c ! k)]"
    by (simp add: list_update_append)
  finally show ?case by (simp add: d)
qed

lemma fold_setitem_rows:
  "\<forall>i \<in> set is. i < length (cells ng) \<Longrightarrow>
   fold (\<lambda>i ng. fold (\<lambda>j ng. setitem ng i j (v i j)) js ng) is ng
     = ng\<lparr>cells := fold (\<lambda>i c. c[i := fold (\<lambda>j r. r[j := v i j]) js (c ! i)]) is (cells ng)\<rparr>"
proof (induction "is" arbitrary: ng)
  case Nil
  then show ?case by simp
next
  case (Cons i "is")
  define ng' where
    "ng' = ng\<lparr>cells := (cells ng)[i := fold (\<lambda>j r. r[j := v i j]) js (cells ng ! i)]\<rparr>"
  have i: "i < length (cells ng)"
    using Cons.prems by simp
  have first: "fold (\<lambda>j ng. setitem ng i j (v i j)) js ng = ng'"
    unfolding ng'_def using i by (rule fold_setitem_row)
  have "\<forall>i \<in> set is. i < length (cells ng')"
    using Cons.prems by (simp add: ng'_def)
  from Cons.IH [OF this] show ?case
    by (simp add: first) (simp add: ng'_def)
qed

lemma smooth_pass_cells:
  assumes "rectangular g"
  shows "smooth_pass (nrows g) (ncols g) g
           = g\<lparr>cells := map (\<lambda>i. map (\<lambda>j. mean (neighbors g (nrows g) (ncols g) i j))
                                   [0..<ncols g]) [0..<nrows g]\<rparr>"
proof -
  define v where "v = (\<lambda>i j. sum_list (neighbors g (nrows g) (ncols g) i j)
                       / real (length (neighbors g (nrows g) (ncols g) i j)))"
  define row where "row = (\<lambda>i r. fold (\<lambda>j r. r[j := v i j]) [0..<ncols g] r)"
  have len: "length (cells g) = nrows g"
    and cols: "\<And>i. i < nrows g \<Longrightarrow> length (cells g ! i) = ncols g"
    using assms by (auto simp: rectangular_def list_all_length)
  have "smooth_pass (nrows g) (ncols g) g
          = g\<lparr>cells := fold (\<lambda>i c. c[i := row i (c ! i)]) [0..<nrows g] (cells g)\<rparr>"
    using fold_setitem_rows [of "[0..<nrows g]" g v "[0..<ncols g]"] len
    by (simp add: smooth_pass_def v_def row_def)
  also have "fold (\<lambda>i c. c[i := row i (c ! i)]) [0..<nrows g] (cells g)
               = map (\<lambda>i. row i (cells g ! i)) [0..<nrows g]"
    using fold_rows_update [of "nrows g" "cells g" row] len by simp
  also have "\<dots> = map (\<lambda>i. map (v i) [0..<ncols g]) [0..<nrows g]"
  proof (rule map_cong [OF refl])
    fix i assume "i \<in> set [0..<nrows g]"
    then have "length (cells g ! i) = ncols g"
      using cols by simp
    then show "row i (cells g ! i) = map (v i) [0..<ncols g]"
      unfolding row_def using fold_row_update [of "ncols g" "cells g ! i" "v i"] by simp
  qed
  finally show ?thesis
    by (simp add: mean_def v_def)
qed

lemma map_filter_Cons:
  "map f (filter P (x # xs)) = (if P x then [f x] else []) @ map f (filter P xs)"
  by simp

lemma averaged_values_neighbors:
  assumes "i < nrows g" "j < ncols g"
  shows "averaged_values g i j = neighbors g (nrows g) (ncols g) i j"
proof -
  have own: "exists_in g (int i, int j)"
    using assms by (simp add: exists_in_def)
  have up: "exists_in g (int i - 1, int j) \<longleftrightarrow> i > 0"
    using assms by (auto simp: exists_in_def)
  have down: "exists_in g (int i + 1, int j) \<longleftrightarrow> i < nrows g - 1"
    using assms by (auto simp: exists_in_def)
  have left: "exists_in g (int i, int j - 1) \<longleftrightarrow> j > 0"
    using assms by (auto simp: exists_in_def)
  have right: "exists_in g (int i, int j + 1) \<longleftrightarrow> j < ncols g - 1"
    using assms by (auto simp: exists_in_def)
  have idx: "nat (int i) = i" "nat (int j) = j" "nat (int i - 1) = i - 1"
    "nat (int i + 1) = i + 1" "nat (int j - 1) = j - 1" "nat (int j + 1) = j + 1"
    by simp_all
  show ?thesis
    unfolding averaged_values_def own_and_orthogonal_def neighbors_def map_filter_Cons
      up down left right fst_conv snd_conv idx
    by (simp add: own)
qed

lemma smooth_pass_snapshot:
  assumes "rectangular g"
  shows "smooth_pass (nrows g) (ncols g) g = snapshot_pass g"
proof -
  have "map (\<lambda>i. map (\<lambda>j. mean (neighbors g (nrows g) (ncols g) i j)) [0..<ncols g]) [0..<nrows g]
      = map (\<lambda>i. map (\<lambda>j. mean (averaged_values g i j)) [0..<ncols g]) [0..<nrows g]"
    by (intro map_cong refl) (simp add: averaged_values_neighbors)
  then show ?thesis
    by (simp add: smooth_pass_cells [OF assms] snapshot_pass_def)
qed

lemma length_neighbors:
  "length (neighbors g rows cols i j) =
     1 + (if i > 0 then 1 else 0) + (if i < rows - 1 then 1 else 0)
       + (if j > 0 then 1 else 0) + (if j < cols - 1 then 1 else 0)"
  by (simp add: neighbors_def)

lemma count_corner:
  assumes "2 \<le> nrows g" "2 \<le> ncols g" "i < nrows g" "j < ncols g" "in_corner g i j"
  shows "length (averaged_values g i j) = 3"
  using assms
  by (auto simp: averaged_values_neighbors length_neighbors in_corner_def)

lemma count_edge:
  assumes "2 \<le> nrows g" "2 \<le> ncols g" "i < nrows g" "j < ncols g"
    "on_edge g i j" "\<not> in_corner g i j"
  shows "length (averaged_values g i j) = 4"
  using assms
  by (auto simp: averaged_values_neighbors length_neighbors in_corner_def on_edge_def)

lemma count_interior:
  assumes "i < nrows g" "j < ncols g" "\<not> on_edge g i j"
  shows "length (averaged_values g i j) = 5"
  using assms
  by (auto simp: averaged_values_neighbors length_neighbors on_edge_def)

lemma snapshot_pass_nth:
  "i < nrows g \<Longrightarrow> j < ncols g \<Longrightarrow>
   cells (snapshot_pass g) ! i ! j = mean (averaged_values g i j)"
  by (simp add: snapshot_pass_def)


lemma cell_in_values:
  assumes "rectangular g" "a < nrows g" "b < ncols g"
  shows "cells g ! a ! b \<in> cell_values g"
proof -
  have "a < length (cells g)" and "b < length (cells g ! a)"
    using assms by (auto simp: rectangular_def list_all_length)
  then have "cells g ! a \<in> set (cells g)" and "cells g ! a ! b \<in> set (cells g ! a)"
    by simp_all
  then show ?thesis
    unfolding cell_values_def by auto
qed

lemma neighbors_values:
  assumes "rectangular g" "i < nrows g" "j < ncols g"
  shows "set (neighbors g (nrows g) (ncols g) i j) \<subseteq> cell_values g"
proof -
  have "cells g ! i ! j \<in> cell_values g"
    using assms by (rule cell_in_values)
  moreover have "cells g ! (i - 1) ! j \<in> cell_values g"
    using assms by (intro cell_in_values) simp_all
  moreover have "cells g ! (i + 1) ! j \<in> cell_values g" if "i < nrows g - 1"
    using assms that by (intro cell_in_values) simp_all
  moreover have "cells g ! i ! (j - 1) \<in> cell_values g"
    using assms by (intro cell_in_values) simp_all
  moreover have "cells g ! i ! (j + 1) \<in> cell_values g" if "j < ncols g - 1"
    using assms that by (intro cell_in_values) simp_all
  ultimately show ?thesis
    by (auto simp: neighbors_def)
qed

text \<open>
  Claim C2, as the code has it. On an array whose rows agree with its shape, one run
  of the loops equals the pass of the specification: every cell \<open>(i, j)\<close> becomes the
  mean of its own value and of each orthogonal neighbour that exists, there is no
  wraparound, and every value averaged is a cell of the array the pass started from,
  never one written during the pass. In an array with at least two rows and two
  columns a corner cell averages 3 values and an edge cell that is no corner 4; a
  cell off the edge averages 5. In an array with a single row or a single column
  the cells have fewer neighbours.
\<close>

theorem smoothing_pass_snapshot_mean:
  assumes "rectangular g"
  shows "smooth_pass (nrows g) (ncols g) g = snapshot_pass g
    \<and> (\<forall>i < nrows g. \<forall>j < ncols g.
          cells (smooth_pass (nrows g) (ncols g) g) ! i ! j = mean (averaged_values g i j)
          \<and> averaged_values g i j = neighbors g (nrows g) (ncols g) i j
          \<and> set (averaged_values g i j) \<subseteq> cell_values g
          \<and> (2 \<le> nrows g \<and> 2 \<le> ncols g \<and> in_corner g i j \<longrightarrow>
                length (averaged_values g i j) = 3)
          \<and> (2 \<le> nrows g \<and> 2 \<le> ncols g \<and> on_edge g i j \<and> \<not> in_corner g i j \<longrightarrow>
                length (averaged_values g i j) = 4)
          \<and> (\<not> on_edge g i j \<longrightarrow> length (averaged_values g i j) = 5))"
proof -
  have eq: "smooth_pass (nrows g) (ncols g) g = snapshot_pass g"
    using assms by (rule smooth_pass_snapshot)
  have cell: "cells (smooth_pass (nrows g) (ncols g) g) ! i ! j = mean (averaged_values g i j)"
    if "i < nrows g" "j < ncols g" for i j
    using that by (simp add: eq snapshot_pass_nth)
  have vals: "set (averaged_values g i j) \<subseteq> cell_values g"
    if "i < nrows g" "j < ncols g" for i j
    using neighbors_values [OF assms that] by (simp add: averaged_values_neighbors [OF that])
  show ?thesis
    using eq cell vals averaged_values_neighbors [of _ g] count_corner [of g]
      count_edge [of g] count_interior [of _ g]
    by blast
qed

theorem smoothing_pass_snapshot_mean_witness:
  "rectangular \<lparr>nrows = 3, ncols = 3, cells = [[1, 2, 3], [4, 5, 6], [7, 8, 18]]\<rparr>
   \<and> length (averaged_values \<lparr>nrows = 3, ncols = 3, cells = [[1, 2, 3], [4, 5, 6], [7, 8, 18]]\<rparr> 0 0) = 3
   \<and> length (averaged_values \<lparr>nrows = 3, ncols = 3, cells = [[1, 2, 3], [4, 5, 6], [7, 8, 18]]\<rparr> 0 1) = 4
   \<and> length (averaged_values \<lparr>nrows = 3, ncols = 3, cells = [[1, 2, 3], [4, 5, 6], [7, 8, 18]]\<rparr> 1 1) = 5
   \<and> cells (smooth_pass 3 3 \<lparr>nrows = 3, ncols = 3, cells = [[1, 2, 3], [4, 5, 6], [7, 8, 18]]\<rparr>) ! 1 ! 1 = 5
   \<and> cells (smooth_pass 3 3 \<lparr>nrows = 3, ncols = 3, cells = [[1, 2, 3], [4, 5, 6], [7, 8, 18]]\<rparr>) ! 2 ! 2 = 32 / 3"
proof -
  define g where "g = \<lparr>nrows = 3, ncols = 3, cells = [[1, 2, 3], [4, 5, 6], [7, 8, 18 :: real]]\<rparr>"
  have r: "rectangular g"
    by (simp add: g_def rectangular_def)
  note t = smoothing_pass_snapshot_mean [OF r, THEN conjunct2, rule_format]
  have s: "nrows g = 3" "ncols g = 3"
    by (simp_all add: g_def)
  have c00: "length (averaged_values g 0 0) = 3"
    using t [of 0 0] by (auto simp: s in_corner_def)
  have c01: "length (averaged_values g 0 1) = 4"
    using t [of 0 1] by (auto simp: s in_corner_def on_edge_def)
  have c11: "length (averaged_values g 1 1) = 5"
    using t [of 1 1] by (auto simp: s on_edge_def)
  have m11: "mean (averaged_values g 1 1) = 5"
    by (simp add: g_def mean_def averaged_values_def own_and_orthogonal_def exists_in_def)
  have m22: "mean (averaged_values g 2 2) = 32 / 3"
    by (simp add: g_def mean_def averaged_values_def own_and_orthogonal_def exists_in_def)
  have v11: "cells (smooth_pass 3 3 g) ! 1 ! 1 = 5"
    using t [of 1 1] m11 by (auto simp: s)
  have v22: "cells (smooth_pass 3 3 g) ! 2 ! 2 = 32 / 3"
    using t [of 2 2] m22 by (auto simp: s)
  show ?thesis
    using r c00 c01 c11 v11 v22 unfolding g_def by blast
qed

text \<open>
  The counts of the claim as it was written fail on an array with a single row: the
  cell of a \<open>1 \<times> 1\<close> array is a corner and is averaged with nothing, and the middle
  cell of a \<open>1 \<times> 3\<close> array is an edge cell, no corner, and averages 3 values.
\<close>

theorem smoothing_pass_counterexample:
  "in_corner \<lparr>nrows = 1, ncols = 1, cells = [[7]]\<rparr> 0 0
   \<and> length (neighbors \<lparr>nrows = 1, ncols = 1, cells = [[7]]\<rparr> 1 1 0 0) = 1
   \<and> smooth_pass 1 1 \<lparr>nrows = 1, ncols = 1, cells = [[7]]\<rparr>
       = \<lparr>nrows = 1, ncols = 1, cells = [[7]]\<rparr>
   \<and> on_edge \<lparr>nrows = 1, ncols = 3, cells = [[1, 4, 7]]\<rparr> 0 1
   \<and> \<not> in_corner \<lparr>nrows = 1, ncols = 3, cells = [[1, 4, 7]]\<rparr> 0 1
   \<and> length (neighbors \<lparr>nrows = 1, ncols = 3, cells = [[1, 4, 7]]\<rparr> 1 3 0 1) = 3
   \<and> smooth_pass 1 3 \<lparr>nrows = 1, ncols = 3, cells = [[1, 4, 7]]\<rparr>
       = \<lparr>nrows = 1, ncols = 3, cells = [[5 / 2, 4, 11 / 2]]\<rparr>"
  by (simp add: in_corner_def on_edge_def neighbors_def smooth_pass_def setitem_def upt_rec)

section \<open>Stage 5: smoothing preserves bounds\<close>










section \<open>Failures\<close>

lemma base_profile_negative:
  "rows < 0 \<Longrightarrow> base_longitudinal_profile rows = Inl (ValueError ''linspace'')"
  by (simp add: base_longitudinal_profile_def np_linspace_def)

lemma base_profile_returns:
  assumes "0 \<le> rows"
  obtains p where "base_longitudinal_profile rows = Inr p" "int (length p) = rows"
  using assms by (simp add: base_longitudinal_profile_def np_linspace_def Let_def)

lemma arch_bias_returns:
  assumes "int (length p) = rows" "rows \<le> 2 ^ 1023"
  obtains biased where "apply_arch_bias rows p b = Inr biased"
  using arch_bias_window [OF assms, of b] by blast

lemma expand_negative:
  "cols < 0 \<Longrightarrow> expand_to_grid cols p = Inl (ValueError ''tile'')"
  by (simp add: expand_to_grid_def np_tile_column_def)

lemma expand_returns:
  assumes "0 \<le> cols"
  obtains g where "expand_to_grid cols p = Inr g"
  using assms by (simp add: expand_to_grid_def np_tile_column_def)

lemma getitem_missing:
  fixes params :: params
  shows "params k = None \<Longrightarrow> getitem params k = Inl (KeyError k)"
  by (simp add: getitem_def)

lemma getitem_present:
  fixes params :: params
  assumes "params k \<noteq> None"
  obtains v where "getitem params k = Inr v" "params k = Some v"
  using assms by (auto simp: getitem_def)

lemma generate_after_stage_3:
  assumes "base_longitudinal_profile rows = Inr p" "getitem params ''arch_bias'' = Inr ab"
    "apply_arch_bias rows p ab = Inr biased" "expand_to_grid cols biased = Inr g"
  shows "generate_pressure_field rows cols params =
     (case getitem params ''contact_capacity'' of
        Inl e \<Rightarrow> Inl e
      | Inr capacity \<Rightarrow>
     (case getitem params ''stiffness_factor'' of
        Inl e \<Rightarrow> Inl e
      | Inr stiffness_factor \<Rightarrow>
     (case apply_contact_capacity g capacity of
        None \<Rightarrow>
          (case smooth_steps stiffness_factor 3 of
             Inl e \<Rightarrow> Inl e
           | Inr steps \<Rightarrow> Inr None)
      | Some shaped \<Rightarrow>
          (case smooth_grid_bounded shaped stiffness_factor 3 of
             Inl e \<Rightarrow> Inl e
           | Inr smoothed \<Rightarrow> Inr (Some smoothed)))))"
  by (simp add: generate_pressure_field_def assms)

text \<open>
  Claim C8, as the code has it. No stage checks its input; a malformed input makes
  the call fail at the first operation that cannot proceed, and then no array is
  returned:
  \<^item> a negative row count raises in stage 1 (\<^verbatim>\<open>np.linspace\<close>), before any field of
    \<open>params\<close> is read;
  \<^item> otherwise a missing \<open>arch_bias\<close> raises \<^verbatim>\<open>KeyError\<close> after stage 1;
  \<^item> otherwise (for a row count that converts to a float) a negative column count
    raises in stage 3 (\<^verbatim>\<open>np.tile\<close>);
  \<^item> otherwise a missing \<open>contact_capacity\<close>, and after it a missing
    \<open>stiffness_factor\<close>, raises \<^verbatim>\<open>KeyError\<close> at its first access.
  A row or column count of zero is no failure: with the three fields present and a
  \<open>stiffness_factor\<close> for which \<^verbatim>\<open>steps\<close> is computed, the call returns.
\<close>

theorem failure_order:
  "(rows < 0 \<longrightarrow>
      generate_pressure_field rows cols params = Inl (ValueError ''linspace''))
   \<and> (0 \<le> rows \<and> params ''arch_bias'' = None \<longrightarrow>
      generate_pressure_field rows cols params = Inl (KeyError ''arch_bias''))
   \<and> (0 \<le> rows \<and> rows \<le> 2 ^ 1023 \<and> params ''arch_bias'' \<noteq> None \<and> cols < 0 \<longrightarrow>
      generate_pressure_field rows cols params = Inl (ValueError ''tile''))
   \<and> (0 \<le> rows \<and> rows \<le> 2 ^ 1023 \<and> params ''arch_bias'' \<noteq> None \<and> 0 \<le> cols
        \<and> params ''contact_capacity'' = None \<longrightarrow>
      generate_pressure_field rows cols params = Inl (KeyError ''contact_capacity''))
   \<and> (0 \<le> rows \<and> rows \<le> 2 ^ 1023 \<and> params ''arch_bias'' \<noteq> None \<and> 0 \<le> cols
        \<and> params ''contact_capacity'' \<noteq> None \<and> params ''stiffness_factor'' = None \<longrightarrow>
      generate_pressure_field rows cols params = Inl (KeyError ''stiffness_factor''))
   \<and> (0 \<le> rows \<and> rows \<le> 2 ^ 1023 \<and> params ''arch_bias'' \<noteq> None \<and> 0 \<le> cols
        \<and> params ''contact_capacity'' \<noteq> None
        \<and> (\<exists>s k. params ''stiffness_factor'' = Some s \<and> smooth_steps s 3 = Inr k) \<longrightarrow>
      (\<exists>r. generate_pressure_field rows cols params = Inr r))"
proof -
  have a: "generate_pressure_field rows cols params = Inl (ValueError ''linspace'')"
    if "rows < 0"
    using that by (simp add: generate_pressure_field_def base_profile_negative)
  have b: "generate_pressure_field rows cols params = Inl (KeyError ''arch_bias'')"
    if h1: "0 \<le> rows" and h2: "params ''arch_bias'' = None"
  proof -
    obtain p where p: "base_longitudinal_profile rows = Inr p"
      using h1 by (rule base_profile_returns)
    show ?thesis
      by (simp add: generate_pressure_field_def p getitem_missing h2)
  qed
  have c: "generate_pressure_field rows cols params = Inl (ValueError ''tile'')"
    if h1: "0 \<le> rows" and h1': "rows \<le> 2 ^ 1023"
      and h2: "params ''arch_bias'' \<noteq> None" and h3: "cols < 0"
  proof -
    obtain p where p: "base_longitudinal_profile rows = Inr p" and l: "int (length p) = rows"
      using h1 by (rule base_profile_returns)
    obtain ab where ab: "getitem params ''arch_bias'' = Inr ab"
      using h2 by (rule getitem_present)
    obtain biased where bi: "apply_arch_bias rows p ab = Inr biased"
      using l h1' by (rule arch_bias_returns)
    show ?thesis
      by (simp add: generate_pressure_field_def p ab bi expand_negative [OF h3])
  qed
  have stage3: "\<exists>g. generate_pressure_field rows cols params =
     (case getitem params ''contact_capacity'' of
        Inl e \<Rightarrow> Inl e
      | Inr capacity \<Rightarrow>
     (case getitem params ''stiffness_factor'' of
        Inl e \<Rightarrow> Inl e
      | Inr stiffness_factor \<Rightarrow>
     (case apply_contact_capacity g capacity of
        None \<Rightarrow>
          (case smooth_steps stiffness_factor 3 of
             Inl e \<Rightarrow> Inl e
           | Inr steps \<Rightarrow> Inr None)
      | Some shaped \<Rightarrow>
          (case smooth_grid_bounded shaped stiffness_factor 3 of
             Inl e \<Rightarrow> Inl e
           | Inr smoothed \<Rightarrow> Inr (Some smoothed)))))"
    if h1: "0 \<le> rows" and h1': "rows \<le> 2 ^ 1023"
      and h2: "params ''arch_bias'' \<noteq> None" and h3: "0 \<le> cols"
  proof -
    obtain p where p: "base_longitudinal_profile rows = Inr p" and l: "int (length p) = rows"
      using h1 by (rule base_profile_returns)
    obtain ab where ab: "getitem params ''arch_bias'' = Inr ab"
      using h2 by (rule getitem_present)
    obtain biased where bi: "apply_arch_bias rows p ab = Inr biased"
      using l h1' by (rule arch_bias_returns)
    obtain g where g: "expand_to_grid cols biased = Inr g"
      using h3 by (rule expand_returns)
    show ?thesis
      using generate_after_stage_3 [OF p ab bi g] by blast
  qed
  have d: "generate_pressure_field rows cols params = Inl (KeyError ''contact_capacity'')"
    if h1: "0 \<le> rows" and h1': "rows \<le> 2 ^ 1023"
      and h2: "params ''arch_bias'' \<noteq> None" and h3: "0 \<le> cols"
      and h4: "params ''contact_capacity'' = None"
    using stage3 [OF h1 h1' h2 h3] by (auto simp: getitem_missing h4)
  have e: "generate_pressure_field rows cols params = Inl (KeyError ''stiffness_factor'')"
    if h1: "0 \<le> rows" and h1': "rows \<le> 2 ^ 1023"
      and h2: "params ''arch_bias'' \<noteq> None" and h3: "0 \<le> cols"
      and h4: "params ''contact_capacity'' \<noteq> None" and h5: "params ''stiffness_factor'' = None"
  proof -
    obtain cc where cc: "getitem params ''contact_capacity'' = Inr cc"
      using h4 by (rule getitem_present)
    show ?thesis
      using stage3 [OF h1 h1' h2 h3] by (auto simp: cc getitem_missing h5)
  qed
  have f: "\<exists>r. generate_pressure_field rows cols params = Inr r"
    if h1: "0 \<le> rows" and h1': "rows \<le> 2 ^ 1023"
      and h2: "params ''arch_bias'' \<noteq> None" and h3: "0 \<le> cols"
      and h4: "params ''contact_capacity'' \<noteq> None"
      and h5: "\<exists>s k. params ''stiffness_factor'' = Some s \<and> smooth_steps s 3 = Inr k"
  proof -
    obtain cc where cc: "getitem params ''contact_capacity'' = Inr cc"
      using h4 by (rule getitem_present)
    obtain s k where s: "params ''stiffness_factor'' = Some s" and k: "smooth_steps s 3 = Inr k"
      using h5 by blast
    have sf: "getitem params ''stiffness_factor'' = Inr s"
      using s by (simp add: getitem_def)
    show ?thesis
      using stage3 [OF h1 h1' h2 h3]
      by (auto simp: cc sf k smooth_grid_bounded_funpow split: option.splits)
  qed
  show ?thesis
    using a b c d e f by blast
qed

theorem failure_order_witness:
  "generate_pressure_field (- 1) 4 Map.empty = Inl (ValueError ''linspace'')
   \<and> generate_pressure_field 10 (- 1) Map.empty = Inl (KeyError ''arch_bias'')
   \<and> generate_pressure_field 10 (- 1) [''arch_bias'' \<mapsto> 0.1] = Inl (ValueError ''tile'')
   \<and> generate_pressure_field 10 4 [''arch_bias'' \<mapsto> 0.1] = Inl (KeyError ''contact_capacity'')
   \<and> generate_pressure_field 10 4 [''arch_bias'' \<mapsto> 0.1, ''contact_capacity'' \<mapsto> 0.8]
       = Inl (KeyError ''stiffness_factor'')
   \<and> smooth_steps 1 3 = Inr 0
   \<and> (\<exists>r. generate_pressure_field 10 0 example_params = Inr r)"
proof -
  have le: "(10::int) \<le> 2 ^ 1023"
    by simp
  have a: "generate_pressure_field (- 1) 4 Map.empty = Inl (ValueError ''linspace'')"
    using failure_order [of "- 1" 4 Map.empty] by simp
  have b: "generate_pressure_field 10 (- 1) Map.empty = Inl (KeyError ''arch_bias'')"
    using failure_order [of 10 "- 1" Map.empty] by simp
  have c: "generate_pressure_field 10 (- 1) [''arch_bias'' \<mapsto> 0.1] = Inl (ValueError ''tile'')"
    using failure_order [of 10 "- 1" "[''arch_bias'' \<mapsto> 0.1]"] le by simp
  have d: "generate_pressure_field 10 4 [''arch_bias'' \<mapsto> 0.1]
             = Inl (KeyError ''contact_capacity'')"
    using failure_order [of 10 4 "[''arch_bias'' \<mapsto> 0.1]"] le by simp
  have e: "generate_pressure_field 10 4 [''arch_bias'' \<mapsto> 0.1, ''contact_capacity'' \<mapsto> 0.8]
             = Inl (KeyError ''stiffness_factor'')"
    using failure_order [of 10 4 "[''arch_bias'' \<mapsto> 0.1, ''contact_capacity'' \<mapsto> 0.8]"] le
    by simp
  have s: "\<exists>s k. example_params ''stiffness_factor'' = Some s \<and> smooth_steps s 3 = Inr k"
    using steps_stiff by (simp add: example_params_def)
  have f: "\<exists>r. generate_pressure_field 10 0 example_params = Inr r"
    using failure_order [of 10 0 example_params] le s by (simp add: example_params_def)
  show ?thesis
    using a b c d e f steps_stiff by blast
qed

lemma int_of_product_zero: "int_of_product (Finite d) 0 = Inr 0"
proof -
  have "py_float 0 = Inr (Finite 0)"
    using py_float_int [of 0] by simp
  moreover have "to_float64 (d * 0) = Finite 0"
    by simp
  ultimately have "int_of_product (Finite d) 0 = py_int (Finite 0)"
    by (simp add: int_of_product_def)
  then show ?thesis
    by (simp add: py_int_Finite truncate_real_def)
qed

lemma generate_zero_rows:
  "generate_pressure_field 0 4 example_params
     = Inr (Some \<lparr>nrows = 0, ncols = 4, cells = []\<rparr>)"
proof -
  have p: "base_longitudinal_profile 0 = Inr []"
    by (simp add: base_longitudinal_profile_def np_linspace_def)
  have b: "apply_arch_bias 0 [] 0.1 = Inr []"
    unfolding apply_arch_bias_def literal_035 literal_065 int_of_product_zero
    by (simp add: slice_iadd_def)
  have g: "expand_to_grid 4 [] = Inr \<lparr>nrows = 0, ncols = 4, cells = []\<rparr>"
    by (simp add: expand_to_grid_def np_tile_column_def)
  have ab: "getitem example_params ''arch_bias'' = Inr 0.1"
    by (simp add: example_params_def getitem_def)
  show ?thesis
    unfolding generate_after_stage_3 [OF p ab b g]
    by (simp add: example_params_def getitem_def apply_contact_capacity_def
        smooth_stiff_identity)
qed

lemma generate_zero_cols:
  "generate_pressure_field 10 0 example_params
     = Inr (Some \<lparr>nrows = 10, ncols = 0, cells = [[], [], [], [], [], [], [], [], [], []]\<rparr>)"
proof -
  have ab: "getitem example_params ''arch_bias'' = Inr 0.1"
    by (simp add: example_params_def getitem_def)
  have g: "expand_to_grid 0 [1.2, 1.2 - 1/9, 1.2 - 2/9, 1.2 - 3/9 + 0.1, 1.2 - 4/9 + 0.1,
      1.2 - 5/9 + 0.1, 1.2 - 6/9, 1.2 - 7/9, 1.2 - 8/9, 0.2]
      = Inr \<lparr>nrows = 10, ncols = 0, cells = [[], [], [], [], [], [], [], [], [], []]\<rparr>"
    by (simp add: expand_to_grid_def np_tile_column_def)
  show ?thesis
    unfolding generate_after_stage_3 [OF base_profile_10 ab arch_bias_10 g]
    by (simp add: example_params_def getitem_def apply_contact_capacity_def
        smooth_stiff_identity)
qed

text \<open>
  The claim as it was written fails for a row or column count of zero: with the
  parameters of the example the call returns an empty array of shape \<open>(0, 4)\<close>,
  respectively \<open>(10, 0)\<close>, and raises nothing. A negative column count is not
  detected before the stages run either: with no field present the call fails on
  the missing \<open>arch_bias\<close>, after stage 1.
\<close>

theorem failure_order_counterexample:
  "(0::int) \<le> 0
   \<and> generate_pressure_field 0 4 example_params
       = Inr (Some \<lparr>nrows = 0, ncols = 4, cells = []\<rparr>)
   \<and> generate_pressure_field 10 0 example_params
       = Inr (Some \<lparr>nrows = 10, ncols = 0, cells = [[], [], [], [], [], [], [], [], [], []]\<rparr>)
   \<and> generate_pressure_field 10 (- 1) Map.empty = Inl (KeyError ''arch_bias'')"
proof -
  have "generate_pressure_field 10 (- 1) Map.empty = Inl (KeyError ''arch_bias'')"
    by (simp add: generate_pressure_field_def base_profile_10 getitem_def)
  then show ?thesis
    using generate_zero_rows generate_zero_cols by simp
qed

section \<open>Determinism\<close>










lemma extends_refl [simp]: "extends \<sigma> \<sigma>"
  by (simp add: extends_def)


lemma extendsD:
  assumes "extends \<sigma> \<sigma>'"
  obtains vs ms where "vectors \<sigma>' = vectors \<sigma> @ vs" "matrices \<sigma>' = matrices \<sigma> @ ms"
proof -
  have "vectors \<sigma>' = vectors \<sigma> @ drop (length (vectors \<sigma>)) (vectors \<sigma>')"
    using assms by (metis append_take_drop_id extends_def)
  moreover have "matrices \<sigma>' = matrices \<sigma> @ drop (length (matrices \<sigma>)) (matrices \<sigma>')"
    using assms by (metis append_take_drop_id extends_def)
  ultimately show ?thesis
    by (rule that)
qed



lemma extends_vector:
  "extends \<sigma> \<sigma>' \<Longrightarrow> a < length (vectors \<sigma>) \<Longrightarrow> vectors \<sigma>' ! a = vectors \<sigma> ! a"
  by (elim extendsD) (simp add: nth_append)









end
